theory Spec2Isabelle
  imports Main "HOL-Library.Sublist"
begin

section \<open>Output capture (service.py)\<close>

text \<open>
  \<^verbatim>\<open>OutputCapture\<close> keeps two text buffers and one list of entries
  \<^verbatim>\<open>(kind, text, time.time())\<close>. The time stamp is a float in the source; here
  it is a value of an arbitrary type \<open>'t\<close> handed to the write. The lock around every
  method makes each method atomic, which is how it is modelled: one function per method.
\<close>

record 't OutputCapture =
  stdout_buffer :: string
  stderr_buffer :: string
  combined_output :: "(string \<times> string \<times> 't) list"

definition OutputCapture_init :: "'t OutputCapture" where
  "OutputCapture_init = \<lparr>stdout_buffer = [], stderr_buffer = [], combined_output = []\<rparr>"

definition write_stdout :: "'t OutputCapture \<Rightarrow> string \<Rightarrow> 't \<Rightarrow> 't OutputCapture" where
  "write_stdout oc text t =
     oc\<lparr>stdout_buffer := stdout_buffer oc @ text,
        combined_output := combined_output oc @ [(''stdout'', text, t)]\<rparr>"

definition write_stderr :: "'t OutputCapture \<Rightarrow> string \<Rightarrow> 't \<Rightarrow> 't OutputCapture" where
  "write_stderr oc text t =
     oc\<lparr>stderr_buffer := stderr_buffer oc @ text,
        combined_output := combined_output oc @ [(''stderr'', text, t)]\<rparr>"

text \<open>
  Python's \<^verbatim>\<open>xs[i:]\<close>: a negative index counts from the end and is clipped at the
  start of the list, an index beyond the end gives the empty list.
\<close>

definition py_slice_from :: "'a list \<Rightarrow> int \<Rightarrow> 'a list" where
  "py_slice_from xs i =
     (if i < 0 then drop (nat (int (length xs) + i)) xs else drop (nat i) xs)"

definition get_new_output :: "'t OutputCapture \<Rightarrow> int \<Rightarrow> (string \<times> string \<times> 't) list" where
  "get_new_output oc last_index = py_slice_from (combined_output oc) last_index"


text \<open>A sequence of appends to one capture: each is a call of one of the two writers.\<close>

datatype 't capture_write = WriteStdout string 't | WriteStderr string 't

fun apply_write :: "'t OutputCapture \<Rightarrow> 't capture_write \<Rightarrow> 't OutputCapture" where
  "apply_write oc (WriteStdout text t) = write_stdout oc text t"
| "apply_write oc (WriteStderr text t) = write_stderr oc text t"

fun entry_of :: "'t capture_write \<Rightarrow> string \<times> string \<times> 't" where
  "entry_of (WriteStdout text t) = (''stdout'', text, t)"
| "entry_of (WriteStderr text t) = (''stderr'', text, t)"

definition apply_writes :: "'t OutputCapture \<Rightarrow> 't capture_write list \<Rightarrow> 't OutputCapture" where
  "apply_writes oc ws = foldl apply_write oc ws"

subsection \<open>The tee: StreamingStdout and StreamingStderr\<close>

text \<open>
  \<^verbatim>\<open>sys.stdout\<close> and \<^verbatim>\<open>sys.stderr\<close> either are the original streams or have
  been replaced by the streaming wrappers, which remember the original stream and the
  capture. The original streams are modelled by the list of strings they have received.
\<close>

datatype out_target = Original | Streaming

record 't process_io =
  sys_stdout :: out_target
  sys_stderr :: out_target
  original_stdout :: "string list"
  original_stderr :: "string list"
  output_capture :: "'t OutputCapture"

definition StreamingStdout_write :: "'t process_io \<Rightarrow> string \<Rightarrow> 't \<Rightarrow> 't process_io" where
  "StreamingStdout_write io text t =
     (let io1 = io\<lparr>original_stdout := original_stdout io @ [text]\<rparr>
      in io1\<lparr>output_capture := write_stdout (output_capture io1) text t\<rparr>)"

definition StreamingStderr_write :: "'t process_io \<Rightarrow> string \<Rightarrow> 't \<Rightarrow> 't process_io" where
  "StreamingStderr_write io text t =
     (let io1 = io\<lparr>original_stderr := original_stderr io @ [text]\<rparr>
      in io1\<lparr>output_capture := write_stderr (output_capture io1) text t\<rparr>)"

text \<open>Installing the capture, as \<^verbatim>\<open>execute_workflow_from_config_with_capture\<close> does.\<close>

definition install_capture :: "'t process_io \<Rightarrow> 't process_io" where
  "install_capture io = io\<lparr>sys_stdout := Streaming, sys_stderr := Streaming\<rparr>"

definition restore_streams :: "'t process_io \<Rightarrow> 't process_io" where
  "restore_streams io = io\<lparr>sys_stdout := Original, sys_stderr := Original\<rparr>"

text \<open>What the program does when it writes to \<^verbatim>\<open>sys.stdout\<close> or \<^verbatim>\<open>sys.stderr\<close>.\<close>

datatype 't program_write = ToStdout string 't | ToStderr string 't

fun sys_write :: "'t process_io \<Rightarrow> 't program_write \<Rightarrow> 't process_io" where
  "sys_write io (ToStdout text t) =
     (case sys_stdout io of
        Original \<Rightarrow> io\<lparr>original_stdout := original_stdout io @ [text]\<rparr>
      | Streaming \<Rightarrow> StreamingStdout_write io text t)"
| "sys_write io (ToStderr text t) =
     (case sys_stderr io of
        Original \<Rightarrow> io\<lparr>original_stderr := original_stderr io @ [text]\<rparr>
      | Streaming \<Rightarrow> StreamingStderr_write io text t)"

definition sys_writes :: "'t process_io \<Rightarrow> 't program_write list \<Rightarrow> 't process_io" where
  "sys_writes io ws = foldl sys_write io ws"

fun stdout_texts :: "'t program_write list \<Rightarrow> string list" where
  "stdout_texts [] = []"
| "stdout_texts (ToStdout text t # ws) = text # stdout_texts ws"
| "stdout_texts (ToStderr text t # ws) = stdout_texts ws"

fun stderr_texts :: "'t program_write list \<Rightarrow> string list" where
  "stderr_texts [] = []"
| "stderr_texts (ToStdout text t # ws) = stderr_texts ws"
| "stderr_texts (ToStderr text t # ws) = text # stderr_texts ws"

fun captured_entry :: "'t program_write \<Rightarrow> string \<times> string \<times> 't" where
  "captured_entry (ToStdout text t) = (''stdout'', text, t)"
| "captured_entry (ToStderr text t) = (''stderr'', text, t)"

section \<open>JSON values, frames and time\<close>

text \<open>
  Updates are JSON-like values (Python dicts, lists, strings, numbers). A dict is an
  association list; \<^verbatim>\<open>d.get(k, default)\<close> is \<open>dict_get\<close>.
\<close>

datatype json = JNull | JBool bool | JInt int | JStr string | JList "json list"
  | JObj "(string \<times> json) list"

definition dict_get :: "(string \<times> json) list \<Rightarrow> string \<Rightarrow> json \<Rightarrow> json" where
  "dict_get kvs k d = (case map_of kvs k of None \<Rightarrow> d | Some v \<Rightarrow> v)"

text \<open>
  A server-sent-event frame \<^verbatim>\<open>{"event": ..., "data": json.dumps(x)}\<close>. The field
  \<open>data\<close> holds the value \<open>x\<close> that the source hands to \<^verbatim>\<open>json.dumps\<close>; its
  rendering as text is the encoder's business.
\<close>

record frame =
  event :: json
  data :: json

text \<open>
  Instants and durations are integers counting microseconds, the resolution of
  \<^verbatim>\<open>datetime\<close>. A \<^verbatim>\<open>timedelta\<close> is normalised into days, seconds (0 to 86399)
  and microseconds; \<^verbatim>\<open>.seconds\<close> is the middle component.
\<close>

definition timedelta_seconds :: "int \<Rightarrow> int" where
  "timedelta_seconds d = (d div 1000000) mod 86400"

definition total_seconds_floor :: "int \<Rightarrow> int" where
  "total_seconds_floor d = d div 1000000"

section \<open>The task manager\<close>

text \<open>
  Modelled from the spec: the module \<^verbatim>\<open>task_manager\<close> (the registries of stream tasks
  and client sessions and the functions on them that api.py and service.py import) is
  not among the sources. A stream task has the configuration it was created with, an
  append-only list of updates and a completion flag; a client session has its own
  append-only list of updates, an activity flag and the tasks attached to it. Reading
  updates from a cursor is a slice of the list from that index.
\<close>

record stream_task =
  config :: "(string \<times> json) list"
  updates :: "json list"
  completed :: bool

record client_session =
  client_updates :: "(string \<times> json) list list"
  is_active :: bool
  active_tasks :: "string list"

record world =
  clock :: int
  stream_tasks :: "string \<rightharpoonup> stream_task"
  client_sessions :: "string \<rightharpoonup> client_session"

text \<open>
  Modelled from the spec: the errors of the registries (\<^verbatim>\<open>task_manager\<close> is absent).
\<close>

datatype task_error = DuplicateJobError | UnknownJobError | JobAlreadyCompletedError
  | UnknownSessionError

text \<open>
  Modelled from the spec: lookup of a stream task, the slice of its updates from a
  cursor, and its completion flag (\<^verbatim>\<open>task_manager\<close> is absent).
\<close>

definition get_stream_task :: "world \<Rightarrow> string \<Rightarrow> stream_task option" where
  "get_stream_task w task_id = stream_tasks w task_id"

definition get_stream_task_updates :: "world \<Rightarrow> string \<Rightarrow> nat \<Rightarrow> json list" where
  "get_stream_task_updates w task_id last_index =
     (case stream_tasks w task_id of None \<Rightarrow> [] | Some t \<Rightarrow> drop last_index (updates t))"

definition is_stream_task_completed :: "world \<Rightarrow> string \<Rightarrow> bool" where
  "is_stream_task_completed w task_id =
     (case stream_tasks w task_id of None \<Rightarrow> False | Some t \<Rightarrow> completed t)"

text \<open>
  Modelled from the spec: creating a task fails on a duplicate id; appending an update
  fails on an unknown or a completed task; completing sets the flag. The terminal update
  is appended by the caller before it completes the task, as service.py does
  (\<^verbatim>\<open>task_manager\<close> is absent).
\<close>

definition create_stream_task ::
  "world \<Rightarrow> string \<Rightarrow> (string \<times> json) list \<Rightarrow> task_error + world" where
  "create_stream_task w task_id cfg =
     (case stream_tasks w task_id of
        Some t \<Rightarrow> Inl DuplicateJobError
      | None \<Rightarrow> Inr (w\<lparr>stream_tasks := (stream_tasks w)(task_id \<mapsto>
                  \<lparr>config = cfg, updates = [], completed = False\<rparr>)\<rparr>))"

definition update_stream_task :: "world \<Rightarrow> string \<Rightarrow> json \<Rightarrow> task_error + world" where
  "update_stream_task w task_id u =
     (case stream_tasks w task_id of
        None \<Rightarrow> Inl UnknownJobError
      | Some t \<Rightarrow>
          if completed t then Inl JobAlreadyCompletedError
          else Inr (w\<lparr>stream_tasks := (stream_tasks w)(task_id \<mapsto>
                      t\<lparr>updates := updates t @ [u]\<rparr>)\<rparr>))"

definition complete_stream_task :: "world \<Rightarrow> string \<Rightarrow> task_error + world" where
  "complete_stream_task w task_id =
     (case stream_tasks w task_id of
        None \<Rightarrow> Inl UnknownJobError
      | Some t \<Rightarrow> Inr (w\<lparr>stream_tasks := (stream_tasks w)(task_id \<mapsto>
                      t\<lparr>completed := True\<rparr>)\<rparr>))"

text \<open>
  Modelled from the spec: lookup of a client session, its activity flag, the slice of
  its updates from a cursor, and its creation (\<^verbatim>\<open>task_manager\<close> is absent).
\<close>

definition get_client_session :: "world \<Rightarrow> string \<Rightarrow> client_session option" where
  "get_client_session w client_id = client_sessions w client_id"

definition is_client_session_active :: "world \<Rightarrow> string \<Rightarrow> bool" where
  "is_client_session_active w client_id =
     (case client_sessions w client_id of None \<Rightarrow> False | Some s \<Rightarrow> is_active s)"

definition get_client_updates :: "world \<Rightarrow> string \<Rightarrow> nat \<Rightarrow> (string \<times> json) list list" where
  "get_client_updates w client_id last_index =
     (case client_sessions w client_id of
        None \<Rightarrow> [] | Some s \<Rightarrow> drop last_index (client_updates s))"

definition create_client_session :: "world \<Rightarrow> string \<Rightarrow> world" where
  "create_client_session w client_id =
     w\<lparr>client_sessions := (client_sessions w)(client_id \<mapsto>
          \<lparr>client_updates = [], is_active = True, active_tasks = []\<rparr>)\<rparr>"

text \<open>
  Modelled from the spec: an update is appended to the log of an active session; once a
  session is inactive nothing more is appended (\<^verbatim>\<open>task_manager\<close> is absent).
\<close>

definition send_to_client :: "world \<Rightarrow> string \<Rightarrow> (string \<times> json) list \<Rightarrow> world" where
  "send_to_client w client_id u =
     (case client_sessions w client_id of
        None \<Rightarrow> w
      | Some s \<Rightarrow>
          if is_active s
          then w\<lparr>client_sessions := (client_sessions w)(client_id \<mapsto>
                    s\<lparr>client_updates := client_updates s @ [u]\<rparr>)\<rparr>
          else w)"

text \<open>
  Modelled from the spec: closing sets the flag, detaches every task and keeps the log
  (\<^verbatim>\<open>task_manager\<close> is absent).
\<close>

definition close_client_session :: "world \<Rightarrow> string \<Rightarrow> world" where
  "close_client_session w client_id =
     (case client_sessions w client_id of
        None \<Rightarrow> w
      | Some s \<Rightarrow> w\<lparr>client_sessions := (client_sessions w)(client_id \<mapsto>
                     s\<lparr>is_active := False, active_tasks := []\<rparr>)\<rparr>)"

section \<open>The stream readers (api.py)\<close>

text \<open>
  \<^verbatim>\<open>event_generator\<close> and \<^verbatim>\<open>client_event_generator\<close> are asynchronous generators.
  They give up control at every \<^verbatim>\<open>yield\<close> and at the \<^verbatim>\<open>asyncio.sleep(0.5)\<close> that
  ends a tick; whatever else runs in the meantime may have changed the registries and
  the clock when they are resumed. A generator is therefore a state (where it is
  suspended, with its local variables \<^verbatim>\<open>start_time\<close> and \<^verbatim>\<open>last_index\<close>) and a
  function that, given the world found on resumption, runs it to its next suspension
  and returns what it did on the way. The break that follows the yield of a closing
  frame does nothing observable and is taken together with that yield.
\<close>

record reader =
  start_time :: int
  last_index :: nat

datatype effect =
    GetStreamTaskUpdates string nat
  | GetClientUpdates string nat
  | Yield frame
  | Sleep

datatype 'u gen_state =
    NotStarted
  | AtYield reader "'u list"
  | AtSleep reader
  | Closed reader

fun frames_of :: "effect list \<Rightarrow> frame list" where
  "frames_of [] = []"
| "frames_of (Yield f # es) = f # frames_of es"
| "frames_of (e # es) = frames_of es"

definition stream_timeout_frame :: frame where
  "stream_timeout_frame = \<lparr>event = JStr ''error'', data = JObj [(''error'', JStr ''Stream timeout'')]\<rparr>"

definition task_not_found_frame :: frame where
  "task_not_found_frame = \<lparr>event = JStr ''error'', data = JObj [(''error'', JStr ''Task not found'')]\<rparr>"

definition update_frame :: "world \<Rightarrow> string \<Rightarrow> json \<Rightarrow> frame" where
  "update_frame w task_id u =
     \<lparr>event = (if \<not> is_stream_task_completed w task_id then JStr ''update'' else JStr ''complete''),
      data = u\<rparr>"

text \<open>
  The \<^verbatim>\<open>for update in updates\<close> loop at its head with the updates still to go, and
  what follows the loop: the completion check, then the sleep.
\<close>

fun event_generator_for :: "world \<Rightarrow> string \<Rightarrow> reader \<Rightarrow> json list \<Rightarrow> effect list \<times> json gen_state" where
  "event_generator_for w task_id r [] =
     (if is_stream_task_completed w task_id then ([], Closed r) else ([Sleep], AtSleep r))"
| "event_generator_for w task_id r (u # us) = ([Yield (update_frame w task_id u)], AtYield r us)"

text \<open>One pass through the body of \<^verbatim>\<open>while True\<close>, from its head.\<close>

definition event_generator_tick :: "string \<Rightarrow> int \<Rightarrow> world \<Rightarrow> reader \<Rightarrow> effect list \<times> json gen_state" where
  "event_generator_tick task_id timeout w r =
     (if timedelta_seconds (clock w - start_time r) > timeout
      then ([Yield stream_timeout_frame], Closed r)
      else if get_stream_task w task_id = None
      then ([Yield task_not_found_frame], Closed r)
      else let upds = get_stream_task_updates w task_id (last_index r);
               (effs, s) = event_generator_for w task_id r upds
           in (GetStreamTaskUpdates task_id (last_index r) # effs, s))"

fun event_generator_resume ::
  "string \<Rightarrow> int \<Rightarrow> world \<Rightarrow> json gen_state \<Rightarrow> effect list \<times> json gen_state" where
  "event_generator_resume task_id timeout w NotStarted =
     event_generator_tick task_id timeout w \<lparr>start_time = clock w, last_index = 0\<rparr>"
| "event_generator_resume task_id timeout w (AtSleep r) = event_generator_tick task_id timeout w r"
| "event_generator_resume task_id timeout w (AtYield r us) =
     event_generator_for w task_id (r\<lparr>last_index := last_index r + 1\<rparr>) us"
| "event_generator_resume task_id timeout w (Closed r) = ([], Closed r)"

text \<open>Running the generator over the worlds it finds at its successive resumptions.\<close>

fun event_generator ::
  "string \<Rightarrow> int \<Rightarrow> json gen_state \<Rightarrow> world list \<Rightarrow> effect list \<times> json gen_state" where
  "event_generator task_id timeout s [] = ([], s)"
| "event_generator task_id timeout s (w # ws) =
     (let (e1, s1) = event_generator_resume task_id timeout w s;
          (e2, s2) = event_generator task_id timeout s1 ws
      in (e1 @ e2, s2))"

subsection \<open>The client-session reader\<close>

text \<open>
  The updates of a session are dicts: the source calls \<^verbatim>\<open>update.get\<close> on each.
\<close>

definition session_closed_frame :: frame where
  "session_closed_frame =
     \<lparr>event = JStr ''session_closed'', data = JObj [(''message'', JStr ''Client session closed'')]\<rparr>"

definition session_timeout_frame :: frame where
  "session_timeout_frame =
     \<lparr>event = JStr ''session_timeout'', data = JObj [(''message'', JStr ''Session timed out'')]\<rparr>"

definition client_frame :: "(string \<times> json) list \<Rightarrow> frame" where
  "client_frame u = \<lparr>event = dict_get u ''event_type'' (JStr ''update''), data = JObj u\<rparr>"

fun client_event_generator_for ::
  "reader \<Rightarrow> (string \<times> json) list list \<Rightarrow> effect list \<times> (string \<times> json) list gen_state" where
  "client_event_generator_for r [] = ([Sleep], AtSleep r)"
| "client_event_generator_for r (u # us) = ([Yield (client_frame u)], AtYield r us)"

definition client_event_generator_tick ::
  "string \<Rightarrow> int \<Rightarrow> world \<Rightarrow> reader \<Rightarrow> effect list \<times> (string \<times> json) list gen_state" where
  "client_event_generator_tick client_id timeout w r =
     (if \<not> is_client_session_active w client_id
      then ([Yield session_closed_frame], Closed r)
      else if timedelta_seconds (clock w - start_time r) > timeout
      then ([Yield session_timeout_frame], Closed r)
      else let upds = get_client_updates w client_id (last_index r);
               (effs, s) = client_event_generator_for r upds
           in (GetClientUpdates client_id (last_index r) # effs, s))"

fun client_event_generator_resume ::
  "string \<Rightarrow> int \<Rightarrow> world \<Rightarrow> (string \<times> json) list gen_state
     \<Rightarrow> effect list \<times> (string \<times> json) list gen_state" where
  "client_event_generator_resume client_id timeout w NotStarted =
     client_event_generator_tick client_id timeout w \<lparr>start_time = clock w, last_index = 0\<rparr>"
| "client_event_generator_resume client_id timeout w (AtSleep r) =
     client_event_generator_tick client_id timeout w r"
| "client_event_generator_resume client_id timeout w (AtYield r us) =
     client_event_generator_for (r\<lparr>last_index := last_index r + 1\<rparr>) us"
| "client_event_generator_resume client_id timeout w (Closed r) = ([], Closed r)"

fun client_event_generator ::
  "string \<Rightarrow> int \<Rightarrow> (string \<times> json) list gen_state \<Rightarrow> world list
     \<Rightarrow> effect list \<times> (string \<times> json) list gen_state" where
  "client_event_generator client_id timeout s [] = ([], s)"
| "client_event_generator client_id timeout s (w # ws) =
     (let (e1, s1) = client_event_generator_resume client_id timeout w s;
          (e2, s2) = client_event_generator client_id timeout s1 ws
      in (e1 @ e2, s2))"

subsection \<open>The endpoints that start a reader\<close>

datatype http_result =
    HTTPException nat string
  | KeyError string
  | EventSourceResponse string json

definition stream_results :: "world \<Rightarrow> string \<Rightarrow> http_result" where
  "stream_results w task_id =
     (case get_stream_task w task_id of
        None \<Rightarrow> HTTPException 404 ''Task not found''
      | Some t \<Rightarrow>
          (case map_of (config t) ''timeout'' of
             None \<Rightarrow> KeyError ''timeout''
           | Some v \<Rightarrow> EventSourceResponse task_id v))"

definition stream_client_updates :: "world \<Rightarrow> string \<Rightarrow> http_result" where
  "stream_client_updates w client_id =
     (case get_client_session w client_id of
        None \<Rightarrow> HTTPException 404 ''Client session not found''
      | Some s \<Rightarrow> EventSourceResponse client_id (JInt 3600))"

subsection \<open>Auxiliary notions and example worlds\<close>

fun still_open :: "'u gen_state \<Rightarrow> bool" where
  "still_open (Closed r) = False"
| "still_open s = True"

text \<open>
  A job \<open>J1\<close> with timeout 30 and an active session \<open>S1\<close>, seen by a reader that
  started at instant 0: after 31 seconds, and after one day and 30 seconds.
\<close>

definition timed_out_world :: world where
  "timed_out_world =
     \<lparr>clock = 31000000,
      stream_tasks = [''J1'' \<mapsto> \<lparr>config = [(''timeout'', JInt 30)], updates = [], completed = False\<rparr>],
      client_sessions = [''S1'' \<mapsto> \<lparr>client_updates = [], is_active = True, active_tasks = []\<rparr>]\<rparr>"

definition day_later_world :: world where
  "day_later_world =
     \<lparr>clock = 86430000000,
      stream_tasks = [''J1'' \<mapsto> \<lparr>config = [(''timeout'', JInt 30)], updates = [], completed = False\<rparr>],
      client_sessions = [''S1'' \<mapsto> \<lparr>client_updates = [], is_active = True, active_tasks = []\<rparr>]\<rparr>"

text \<open>An active session \<open>S1\<close> seen one day and one second after its reader started.\<close>

definition long_session_world :: world where
  "long_session_world =
     \<lparr>clock = 86401000000,
      stream_tasks = Map.empty,
      client_sessions = [''S1'' \<mapsto> \<lparr>client_updates = [], is_active = True, active_tasks = []\<rparr>]\<rparr>"

text \<open>
  A session \<open>S1\<close> is opened; later one event is mirrored into its log and the session
  is closed.
\<close>

definition session_opened :: world where
  "session_opened =
     create_client_session \<lparr>clock = 0, stream_tasks = Map.empty, client_sessions = Map.empty\<rparr> ''S1''"

definition session_with_unread :: world where
  "session_with_unread =
     close_client_session
       (send_to_client session_opened ''S1'' [(''event_type'', JStr ''update''), (''task_id'', JStr ''J1'')])
       ''S1''"

subsection \<open>What a reader has delivered\<close>

text \<open>
  The cursor position a generator state stands for: at a yield the frame for index
  \<^verbatim>\<open>last_index\<close> is out and the increment comes on resumption. \<open>pending\<close> are the
  updates of the current slice that the for loop has still to yield.
\<close>

fun delivered :: "'u gen_state \<Rightarrow> nat" where
  "delivered NotStarted = 0"
| "delivered (AtYield r us) = last_index r + 1"
| "delivered (AtSleep r) = last_index r"
| "delivered (Closed r) = last_index r"

fun pending :: "'u gen_state \<Rightarrow> 'u list" where
  "pending (AtYield r us) = us"
| "pending s = []"

definition task_log :: "string \<Rightarrow> world \<Rightarrow> json list" where
  "task_log task_id w = get_stream_task_updates w task_id 0"

definition session_log :: "string \<Rightarrow> world \<Rightarrow> json list" where
  "session_log client_id w = map JObj (get_client_updates w client_id 0)"

text \<open>The log is append-only along the worlds a reader is resumed in.\<close>

fun log_grows :: "(world \<Rightarrow> 'a list) \<Rightarrow> world \<Rightarrow> world list \<Rightarrow> bool" where
  "log_grows lg w [] = True"
| "log_grows lg w (w' # ws) = (prefix (lg w) (lg w') \<and> log_grows lg w' ws)"

text \<open>The frames that carry log entries: all frames but the closing ones.\<close>

definition job_log_frames :: "effect list \<Rightarrow> frame list" where
  "job_log_frames effs =
     filter (\<lambda>f. f \<noteq> stream_timeout_frame \<and> f \<noteq> task_not_found_frame) (frames_of effs)"

definition client_log_frames :: "effect list \<Rightarrow> frame list" where
  "client_log_frames effs =
     filter (\<lambda>f. f \<noteq> session_closed_frame \<and> f \<noteq> session_timeout_frame) (frames_of effs)"

subsection \<open>Undisturbed ticks\<close>

text \<open>
  A tick during which nothing else changes the registry: the job reader is resumed in
  one and the same world from the head of its loop, through every yield of the slice it
  read, until it sleeps or closes. \<open>event_generator_polls\<close> runs such ticks one after the
  other, one world per tick; \<open>seen\<close> is the cursor they reach while the job is running.
\<close>

definition event_generator_poll :: "string \<Rightarrow> int \<Rightarrow> world \<Rightarrow> reader \<Rightarrow> effect list \<times> json gen_state" where
  "event_generator_poll task_id timeout w r =
     event_generator task_id timeout (AtSleep r)
       (replicate (Suc (length (get_stream_task_updates w task_id (last_index r)))) w)"

fun event_generator_polls ::
  "string \<Rightarrow> int \<Rightarrow> json gen_state \<Rightarrow> world list \<Rightarrow> effect list \<times> json gen_state" where
  "event_generator_polls task_id timeout s [] = ([], s)"
| "event_generator_polls task_id timeout (AtSleep r) (w # ws) =
     (let (e1, s1) = event_generator_poll task_id timeout w r;
          (e2, s2) = event_generator_polls task_id timeout s1 ws
      in (e1 @ e2, s2))"
| "event_generator_polls task_id timeout s (w # ws) = ([], s)"

fun seen :: "string \<Rightarrow> nat \<Rightarrow> world list \<Rightarrow> nat" where
  "seen task_id l [] = l"
| "seen task_id l (w # ws) = seen task_id (max l (length (task_log task_id w))) ws"

definition tagged :: "string \<Rightarrow> json \<Rightarrow> frame" where
  "tagged name u = \<lparr>event = JStr name, data = u\<rparr>"

subsection \<open>Undisturbed ticks of the session reader\<close>

text \<open>
  The same for the session reader: a tick resumed in one world from the head of the loop
  through every yield of its slice, and a run of such ticks; \<open>client_seen\<close> is the cursor
  they reach while the session is active.
\<close>

definition client_event_generator_poll ::
  "string \<Rightarrow> int \<Rightarrow> world \<Rightarrow> reader \<Rightarrow> effect list \<times> (string \<times> json) list gen_state" where
  "client_event_generator_poll client_id timeout w r =
     client_event_generator client_id timeout (AtSleep r)
       (replicate (Suc (length (get_client_updates w client_id (last_index r)))) w)"

fun client_event_generator_polls ::
  "string \<Rightarrow> int \<Rightarrow> (string \<times> json) list gen_state \<Rightarrow> world list
     \<Rightarrow> effect list \<times> (string \<times> json) list gen_state" where
  "client_event_generator_polls client_id timeout s [] = ([], s)"
| "client_event_generator_polls client_id timeout (AtSleep r) (w # ws) =
     (let (e1, s1) = client_event_generator_poll client_id timeout w r;
          (e2, s2) = client_event_generator_polls client_id timeout s1 ws
      in (e1 @ e2, s2))"
| "client_event_generator_polls client_id timeout s (w # ws) = ([], s)"

fun client_seen :: "string \<Rightarrow> nat \<Rightarrow> world list \<Rightarrow> nat" where
  "client_seen client_id l [] = l"
| "client_seen client_id l (w # ws) =
     client_seen client_id (max l (length (get_client_updates w client_id 0))) ws"

subsection \<open>Scenario A and other example runs\<close>

definition and_then :: "'e + 'a \<Rightarrow> ('a \<Rightarrow> 'e + 'b) \<Rightarrow> 'e + 'b" where
  "and_then m f = (case m of Inl e \<Rightarrow> Inl e | Inr x \<Rightarrow> f x)"

definition step1 :: json where "step1 = JObj [(''step'', JInt 1)]"

definition step2 :: json where "step2 = JObj [(''step'', JInt 2)]"

definition ok_result :: json where "ok_result = JObj [(''ok'', JBool True)]"

text \<open>
  The producer of scenario A: job \<open>J1\<close> is created with timeout 30, two progress updates
  are appended, then the result is appended and the job is marked completed (the last
  two without a suspension in between, as \<^verbatim>\<open>process_stream_task\<close> does).
\<close>

definition scenario_A :: "task_error + world" where
  "scenario_A =
     and_then (and_then (and_then (and_then
       (create_stream_task \<lparr>clock = 0, stream_tasks = Map.empty, client_sessions = Map.empty\<rparr>
          ''J1'' [(''timeout'', JInt 30)])
       (\<lambda>w. update_stream_task w ''J1'' step1))
       (\<lambda>w. update_stream_task w ''J1'' step2))
       (\<lambda>w. update_stream_task w ''J1'' ok_result))
       (\<lambda>w. complete_stream_task w ''J1'')"

text \<open>The registry holding job \<open>J1\<close> with the given log and flag, seen at instant \<open>t\<close>.\<close>

definition job_world :: "json list \<Rightarrow> bool \<Rightarrow> int \<Rightarrow> world" where
  "job_world us c t =
     \<lparr>clock = t,
      stream_tasks = [''J1'' \<mapsto> \<lparr>config = [(''timeout'', JInt 30)], updates = us, completed = c\<rparr>],
      client_sessions = Map.empty\<rparr>"

definition client_world :: "(string \<times> json) list list \<Rightarrow> bool \<Rightarrow> int \<Rightarrow> world" where
  "client_world us a t =
     \<lparr>clock = t,
      stream_tasks = Map.empty,
      client_sessions = [''S1'' \<mapsto> \<lparr>client_updates = us, is_active = a, active_tasks = []\<rparr>]\<rparr>"

definition fresh_reader :: reader where
  "fresh_reader = \<lparr>start_time = 0, last_index = 0\<rparr>"

definition progress_event :: "(string \<times> json) list" where
  "progress_event = [(''event_type'', JStr ''progress''), (''task_id'', JStr ''J1'')]"

definition plain_event :: "(string \<times> json) list" where
  "plain_event = [(''task_id'', JStr ''J1'')]"

section \<open>Streaming workflow execution (service.py)\<close>

text \<open>
  \<^verbatim>\<open>execute_workflow_for_project_stream\<close> appends structured updates to the stream
  task while a monitor task drains the capture buffer. The database and the workflow
  engine are outside: they appear through the outcome of each call, a returned value or
  a raised exception with its message. The instants that
  \<^verbatim>\<open>datetime.now().isoformat()\<close> reads are given with the environment.
\<close>

datatype 'a outcome = Returns 'a | Raises string

datatype workflow_lookup = NoWorkflow | NoGraph | Ready

datatype exec_result = ResultNone | ResultDict "(string \<times> json) list" | ResultOther string

datatype 't exec_event = Written "'t capture_write" | MonitorWakes string

record 't stream_env =
  ts_setup :: string
  lookup :: "workflow_lookup outcome"
  status_running :: "unit outcome"
  run_events :: "'t exec_event list"
  execution :: "exec_result outcome"
  ts_drain :: string
  status_after :: "unit outcome"
  ts_final :: string
  status_failed :: "unit outcome"
  ts_error :: string

record 't stream_exec =
  registry :: world
  capture :: "'t OutputCapture"
  output_index :: nat
  monitor_running :: bool


text \<open>
  The loop \<^verbatim>\<open>command_output = ""; for output_type, text, timestamp in entries:
  command_output += text\<close>.
\<close>

definition texts_of :: "(string \<times> string \<times> 't) list \<Rightarrow> string" where
  "texts_of entries =
     foldl (\<lambda>command_output (output_type, text, timestamp). command_output @ text) [] entries"


definition command_update :: "string \<Rightarrow> string \<Rightarrow> nat \<Rightarrow> json" where
  "command_update ts out n = JObj
     [(''timestamp'', JStr ts), (''status'', JStr ''running''), (''output_type'', JStr ''command''),
      (''command_output'', JStr out), (''total_output_lines'', JInt (int n))]"

definition error_update :: "string \<Rightarrow> string \<Rightarrow> string \<Rightarrow> json" where
  "error_update ts err out = JObj
     [(''status'', JStr ''error''), (''timestamp'', JStr ts), (''output_type'', JStr ''error''),
      (''error'', JStr err), (''command_output'', JStr out)]"

definition handler_error_update :: "string \<Rightarrow> string \<Rightarrow> string \<Rightarrow> json" where
  "handler_error_update ts msg workflow_id = JObj
     [(''status'', JStr ''error''), (''timestamp'', JStr ts), (''output_type'', JStr ''error''),
      (''error'', JStr (''Error executing workflow: '' @ msg)), (''workflow_id'', JStr workflow_id),
      (''command_output'', JStr (''ERROR: '' @ msg @ [CHR 0x0A]))]"

definition final_result :: "string \<Rightarrow> string \<Rightarrow> json \<Rightarrow> (string \<times> string \<times> 't) list \<Rightarrow> json" where
  "final_result ts workflow_id execution_result total_output = JObj
     [(''status'', JStr ''completed''), (''timestamp'', JStr ts), (''output_type'', JStr ''completion''),
      (''workflow_id'', JStr workflow_id), (''execution_result'', execution_result),
      (''command_output'', JStr (texts_of total_output)),
      (''total_output_lines'', JInt (int (length total_output))),
      (''message'', JStr ''Workflow execution completed successfully'')]"















definition command_output_of :: "json \<Rightarrow> string" where
  "command_output_of u =
     (case u of
        JObj kvs \<Rightarrow> (case map_of kvs ''command_output'' of Some (JStr s) \<Rightarrow> s | _ \<Rightarrow> [])
      | _ \<Rightarrow> [])"

definition output_type_of :: "json \<Rightarrow> json" where
  "output_type_of u = (case u of JObj kvs \<Rightarrow> dict_get kvs ''output_type'' JNull | _ \<Rightarrow> JNull)"

text \<open>
  The state of the log while the execution runs, relative to the log \<open>base\<close> before the
  monitor started: the task is registered and running, the updates appended since are
  command updates, one per drained batch of capture entries, and the batches are
  exactly the entries below \<^verbatim>\<open>output_index\<close>. The command output of an update is the
  concatenation of the texts of the entries of its batch.
\<close>

definition drained_upto ::
  "json list \<Rightarrow> string \<Rightarrow> 't stream_exec \<Rightarrow> json list \<Rightarrow> (string \<times> string \<times> 't) list list \<Rightarrow> bool" where
  "drained_upto base task_id st progress batches \<longleftrightarrow>
     (\<exists>t. stream_tasks (registry st) task_id = Some t \<and> \<not> completed t
          \<and> updates t = base @ progress)
     \<and> map command_output_of progress = map (\<lambda>b. concat (map (\<lambda>e. fst (snd e)) b)) batches
     \<and> list_all (\<lambda>p. output_type_of p = JStr ''command'') progress
     \<and> concat batches = take (output_index st) (combined_output (capture st))
     \<and> output_index st \<le> length (combined_output (capture st))
     \<and> [] \<notin> set batches"


section \<open>Properties of the output capture\<close>

lemma combined_output_apply_write:
  "combined_output (apply_write oc w) = combined_output oc @ [entry_of w]"
  by (cases w) (simp_all add: write_stdout_def write_stderr_def)

lemma combined_output_apply_writes:
  "combined_output (apply_writes oc ws) = combined_output oc @ map entry_of ws"
  unfolding apply_writes_def
  by (induction ws arbitrary: oc) (simp_all add: combined_output_apply_write)

lemma get_new_output_beyond:
  "int (length (combined_output oc)) \<le> i \<Longrightarrow> get_new_output oc i = []"
  by (simp add: get_new_output_def py_slice_from_def)

text \<open>
  C8. After any sequence of appends to a fresh capture, reading from index 0 returns
  every appended entry in append order: the result has as many entries as there were
  appends and its entry at position \<open>i\<close> is the \<open>i\<close>-th append. Reading from an index at
  or beyond the number of entries returns the empty list: the read is a slice of the
  current list and never waits for more data.
\<close>

theorem get_new_output_all_in_order:
  "get_new_output (apply_writes OutputCapture_init ws) 0 = map entry_of ws
   \<and> length (get_new_output (apply_writes OutputCapture_init ws) 0) = length ws
   \<and> (\<forall>i < length ws. get_new_output (apply_writes OutputCapture_init ws) 0 ! i = entry_of (ws ! i))
   \<and> (\<forall>i \<ge> int (length ws). get_new_output (apply_writes OutputCapture_init ws) i = [])"
proof -
  have c: "combined_output (apply_writes OutputCapture_init ws) = map entry_of ws"
    by (simp add: combined_output_apply_writes OutputCapture_init_def)
  have all: "get_new_output (apply_writes OutputCapture_init ws) 0 = map entry_of ws"
    by (simp add: get_new_output_def py_slice_from_def c)
  have none: "\<forall>i \<ge> int (length ws). get_new_output (apply_writes OutputCapture_init ws) i = []"
    using get_new_output_beyond [of "apply_writes OutputCapture_init ws"] by (simp add: c)
  show ?thesis using all none by simp
qed

theorem get_new_output_all_in_order_witness:
  "get_new_output (apply_writes OutputCapture_init
       [WriteStdout ''a'' (1::nat), WriteStderr ''b'' 2]) 0
     = [(''stdout'', ''a'', 1), (''stderr'', ''b'', 2)]
   \<and> (1::nat) < length [WriteStdout ''a'' (1::nat), WriteStderr ''b'' 2]
   \<and> get_new_output (apply_writes OutputCapture_init
       [WriteStdout ''a'' (1::nat), WriteStderr ''b'' 2]) 0 ! 1 = (''stderr'', ''b'', 2)
   \<and> int (length [WriteStdout ''a'' (1::nat), WriteStderr ''b'' 2]) \<le> 2
   \<and> get_new_output (apply_writes OutputCapture_init
       [WriteStdout ''a'' (1::nat), WriteStderr ''b'' 2]) 2 = []"
  using get_new_output_all_in_order [of "[WriteStdout ''a'' (1::nat), WriteStderr ''b'' 2]"]
  by simp

lemma sys_write_installed:
  assumes "sys_stdout io = Streaming" "sys_stderr io = Streaming"
  shows "sys_stdout (sys_write io w) = Streaming"
    and "sys_stderr (sys_write io w) = Streaming"
    and "original_stdout (sys_write io w) = original_stdout io @ stdout_texts [w]"
    and "original_stderr (sys_write io w) = original_stderr io @ stderr_texts [w]"
    and "combined_output (output_capture (sys_write io w))
           = combined_output (output_capture io) @ [captured_entry w]"
  using assms
  by (cases w; simp add: StreamingStdout_write_def StreamingStderr_write_def
        write_stdout_def write_stderr_def Let_def)+

lemma stdout_texts_append: "stdout_texts (xs @ ys) = stdout_texts xs @ stdout_texts ys"
  by (induction xs rule: stdout_texts.induct) simp_all

lemma stderr_texts_append: "stderr_texts (xs @ ys) = stderr_texts xs @ stderr_texts ys"
  by (induction xs rule: stderr_texts.induct) simp_all

lemma sys_writes_installed:
  assumes "sys_stdout io = Streaming" "sys_stderr io = Streaming"
  shows "sys_stdout (sys_writes io ws) = Streaming
       \<and> sys_stderr (sys_writes io ws) = Streaming
       \<and> original_stdout (sys_writes io ws) = original_stdout io @ stdout_texts ws
       \<and> original_stderr (sys_writes io ws) = original_stderr io @ stderr_texts ws
       \<and> combined_output (output_capture (sys_writes io ws))
           = combined_output (output_capture io) @ map captured_entry ws"
  using assms
proof (induction ws rule: rev_induct)
  case Nil
  then show ?case by (simp add: sys_writes_def)
next
  case (snoc w ws)
  have step: "sys_writes io (ws @ [w]) = sys_write (sys_writes io ws) w"
    by (simp add: sys_writes_def)
  from snoc have ih:
    "sys_stdout (sys_writes io ws) = Streaming"
    "sys_stderr (sys_writes io ws) = Streaming"
    "original_stdout (sys_writes io ws) = original_stdout io @ stdout_texts ws"
    "original_stderr (sys_writes io ws) = original_stderr io @ stderr_texts ws"
    "combined_output (output_capture (sys_writes io ws))
       = combined_output (output_capture io) @ map captured_entry ws"
    by simp_all
  show ?case
    unfolding step
    using sys_write_installed [OF ih(1) ih(2), of w] ih(3-5)
    by (simp add: stdout_texts_append stderr_texts_append)
qed

text \<open>
  C9. While the capture is installed, every string the program writes to standard
  output or standard error reaches the original stream unchanged and in order, and is
  appended to the capture buffer as one entry with its kind and text: the capture is a
  tee, the console output is not suppressed.
\<close>

theorem capture_tees_output:
  "original_stdout (sys_writes (install_capture io) ws) = original_stdout io @ stdout_texts ws
   \<and> original_stderr (sys_writes (install_capture io) ws) = original_stderr io @ stderr_texts ws
   \<and> combined_output (output_capture (sys_writes (install_capture io) ws))
       = combined_output (output_capture io) @ map captured_entry ws"
  using sys_writes_installed [of "install_capture io" ws]
  by (simp add: install_capture_def)

section \<open>Properties of the stream readers\<close>

lemma event_generator_Closed: "event_generator task_id timeout (Closed r) ws = ([], Closed r)"
  by (induction ws) simp_all

lemma client_event_generator_Closed:
  "client_event_generator client_id timeout (Closed r) ws = ([], Closed r)"
  by (induction ws) simp_all

text \<open>
  C4. When the task is not in the registry at the reader's first tick, the reader does
  exactly one thing: it yields one frame, whose event is \<open>error\<close>, and closes. It does not
  read any updates and does not sleep, whatever worlds would follow; the same holds at
  any later tick that finds the task gone. The endpoint answers an unknown task id with
  the HTTP error 404.
\<close>

theorem unknown_task_single_error:
  "get_stream_task w task_id = None \<Longrightarrow>
     (\<exists>f. event_generator task_id timeout NotStarted (w # ws)
            = ([Yield f], Closed \<lparr>start_time = clock w, last_index = 0\<rparr>)
          \<and> event f = JStr ''error'')
   \<and> (\<exists>f. event_generator task_id timeout (AtSleep r) (w # ws) = ([Yield f], Closed r)
          \<and> event f = JStr ''error'')
   \<and> stream_results w task_id = HTTPException 404 ''Task not found''"
  by (simp add: event_generator_tick_def event_generator_Closed stream_results_def
      stream_timeout_frame_def task_not_found_frame_def)

theorem unknown_task_single_error_witness:
  "get_stream_task \<lparr>clock = 0, stream_tasks = Map.empty, client_sessions = Map.empty\<rparr> ''J404'' = None
   \<and> event_generator ''J404'' 30 NotStarted
        [\<lparr>clock = 0, stream_tasks = Map.empty, client_sessions = Map.empty\<rparr>]
      = ([Yield \<lparr>event = JStr ''error'', data = JObj [(''error'', JStr ''Task not found'')]\<rparr>],
         Closed \<lparr>start_time = 0, last_index = 0\<rparr>)
   \<and> stream_results \<lparr>clock = 0, stream_tasks = Map.empty, client_sessions = Map.empty\<rparr> ''J404''
      = HTTPException 404 ''Task not found''"
  using unknown_task_single_error
    [of "\<lparr>clock = 0, stream_tasks = Map.empty, client_sessions = Map.empty\<rparr>" "''J404''" 30 "[]"]
  by (simp add: get_stream_task_def event_generator_tick_def task_not_found_frame_def
      timedelta_seconds_def)

lemma client_frame_not_timeout: "client_frame u \<noteq> session_timeout_frame"
  by (auto simp: client_frame_def session_timeout_frame_def dict_get_def)

lemma update_frame_not_timeout: "update_frame w task_id u \<noteq> stream_timeout_frame"
  by (auto simp: update_frame_def stream_timeout_frame_def)

text \<open>
  C10. Both readers compare \<^verbatim>\<open>.seconds\<close>, the within-day seconds of the elapsed
  interval, with the timeout. On a tick where the elapsed time in whole seconds exceeds
  the timeout but its within-day seconds do not, a job reader (task registered and not
  completed) and a session reader (session active) emit no timeout frame and stay open.
  An instance is a reader with timeout 30 resumed 24 hours and 30 seconds after its start.
\<close>

theorem elapsed_check_ignores_days:
  assumes "total_seconds_floor (clock w - start_time r) > timeout"
      and "timedelta_seconds (clock w - start_time r) \<le> timeout"
  shows "(get_stream_task w task_id \<noteq> None \<longrightarrow> \<not> is_stream_task_completed w task_id \<longrightarrow>
            stream_timeout_frame \<notin> set (frames_of (fst (event_generator_resume task_id timeout w (AtSleep r))))
            \<and> still_open (snd (event_generator_resume task_id timeout w (AtSleep r))))
       \<and> (is_client_session_active w client_id \<longrightarrow>
            session_timeout_frame \<notin> set (frames_of (fst (client_event_generator_resume client_id timeout w (AtSleep r))))
            \<and> still_open (snd (client_event_generator_resume client_id timeout w (AtSleep r))))"
proof -
  have job: "stream_timeout_frame \<notin> set (frames_of (fst (event_generator_resume task_id timeout w (AtSleep r))))
            \<and> still_open (snd (event_generator_resume task_id timeout w (AtSleep r)))"
    if "get_stream_task w task_id \<noteq> None" "\<not> is_stream_task_completed w task_id"
    using that assms(2) update_frame_not_timeout [of w task_id]
      update_frame_not_timeout [of w task_id, symmetric]
    by (cases "get_stream_task_updates w task_id (last_index r)")
       (auto simp: event_generator_tick_def)
  have cli: "session_timeout_frame \<notin> set (frames_of (fst (client_event_generator_resume client_id timeout w (AtSleep r))))
            \<and> still_open (snd (client_event_generator_resume client_id timeout w (AtSleep r)))"
    if "is_client_session_active w client_id"
    using that assms(2) client_frame_not_timeout client_frame_not_timeout [symmetric]
    by (cases "get_client_updates w client_id (last_index r)")
       (auto simp: client_event_generator_tick_def)
  show ?thesis using job cli by blast
qed

theorem elapsed_check_ignores_days_witness:
  "total_seconds_floor (clock day_later_world - start_time \<lparr>start_time = 0, last_index = 0\<rparr>) > 30
   \<and> timedelta_seconds (clock day_later_world - start_time \<lparr>start_time = 0, last_index = 0\<rparr>) \<le> 30
   \<and> get_stream_task day_later_world ''J1'' \<noteq> None
   \<and> \<not> is_stream_task_completed day_later_world ''J1''
   \<and> is_client_session_active day_later_world ''S1''
   \<and> stream_timeout_frame \<notin> set (frames_of (fst (event_generator_resume ''J1'' 30 day_later_world
          (AtSleep \<lparr>start_time = 0, last_index = 0\<rparr>))))
   \<and> still_open (snd (event_generator_resume ''J1'' 30 day_later_world
          (AtSleep \<lparr>start_time = 0, last_index = 0\<rparr>)))
   \<and> session_timeout_frame \<notin> set (frames_of (fst (client_event_generator_resume ''S1'' 30 day_later_world
          (AtSleep \<lparr>start_time = 0, last_index = 0\<rparr>))))
   \<and> still_open (snd (client_event_generator_resume ''S1'' 30 day_later_world
          (AtSleep \<lparr>start_time = 0, last_index = 0\<rparr>)))"
proof -
  have h1: "total_seconds_floor (clock day_later_world - start_time \<lparr>start_time = 0, last_index = 0\<rparr>) > 30"
    by (simp add: day_later_world_def total_seconds_floor_def)
  have h2: "timedelta_seconds (clock day_later_world - start_time \<lparr>start_time = 0, last_index = 0\<rparr>) \<le> 30"
    by (simp add: day_later_world_def timedelta_seconds_def)
  have h3: "get_stream_task day_later_world ''J1'' \<noteq> None"
    "\<not> is_stream_task_completed day_later_world ''J1''"
    "is_client_session_active day_later_world ''S1''"
    by (simp_all add: day_later_world_def get_stream_task_def is_stream_task_completed_def
        is_client_session_active_def)
  show ?thesis
    using elapsed_check_ignores_days [OF h1 h2, of "''J1''" "''S1''"] h1 h2 h3 by blast
qed

text \<open>
  C3, as stated, fails for the job reader: its timeout frame carries the event name
  \<open>error\<close>. Here the reader of job \<open>J1\<close> (timeout 30) is resumed 31 seconds after its
  start.
\<close>

theorem job_timeout_frame_is_error_counterexample:
  "total_seconds_floor (clock timed_out_world - 0) > 30
   \<and> frames_of (fst (event_generator ''J1'' 30 (AtSleep \<lparr>start_time = 0, last_index = 0\<rparr>) [timed_out_world]))
       = [\<lparr>event = JStr ''error'', data = JObj [(''error'', JStr ''Stream timeout'')]\<rparr>]"
  by (simp add: timed_out_world_def total_seconds_floor_def timedelta_seconds_def
      event_generator_tick_def stream_timeout_frame_def)

lemma timedelta_seconds_within_day:
  "0 \<le> d \<Longrightarrow> d < 86400 * 1000000 \<Longrightarrow> timedelta_seconds d = total_seconds_floor d"
proof -
  assume a: "0 \<le> d" "d < 86400 * 1000000"
  have "0 \<le> d div 1000000" using a by simp
  moreover have "d div 1000000 < 86400" using a by simp
  ultimately show ?thesis by (simp add: timedelta_seconds_def total_seconds_floor_def)
qed

text \<open>
  C3, amended. On a tick where the elapsed time is less than one day and its whole
  seconds exceed the timeout, the reader yields exactly one closing frame and closes;
  nothing is emitted afterwards, whatever worlds follow. The job reader's frame is named
  \<open>error\<close> and carries the message \<open>Stream timeout\<close>; the session reader's frame (session
  still active) is named \<open>session_timeout\<close>.
\<close>

theorem timeout_closes_reader:
  assumes "0 \<le> clock w - start_time r" and "clock w - start_time r < 86400 * 1000000"
      and "total_seconds_floor (clock w - start_time r) > timeout"
  shows "event_generator task_id timeout (AtSleep r) (w # ws)
           = ([Yield \<lparr>event = JStr ''error'', data = JObj [(''error'', JStr ''Stream timeout'')]\<rparr>], Closed r)
       \<and> (is_client_session_active w client_id \<longrightarrow>
            client_event_generator client_id timeout (AtSleep r) (w # ws)
              = ([Yield \<lparr>event = JStr ''session_timeout'',
                         data = JObj [(''message'', JStr ''Session timed out'')]\<rparr>], Closed r))"
proof -
  have t: "timedelta_seconds (clock w - start_time r) > timeout"
    using assms timedelta_seconds_within_day by simp
  show ?thesis
    using t by (simp add: event_generator_tick_def client_event_generator_tick_def
        event_generator_Closed client_event_generator_Closed
        stream_timeout_frame_def session_timeout_frame_def)
qed

theorem timeout_closes_reader_witness:
  "0 \<le> clock timed_out_world - start_time \<lparr>start_time = 0, last_index = 0\<rparr>
   \<and> clock timed_out_world - start_time \<lparr>start_time = 0, last_index = 0\<rparr> < 86400 * 1000000
   \<and> total_seconds_floor (clock timed_out_world - start_time \<lparr>start_time = 0, last_index = 0\<rparr>) > 30
   \<and> is_client_session_active timed_out_world ''S1''
   \<and> event_generator ''J1'' 30 (AtSleep \<lparr>start_time = 0, last_index = 0\<rparr>) [timed_out_world, timed_out_world]
        = ([Yield \<lparr>event = JStr ''error'', data = JObj [(''error'', JStr ''Stream timeout'')]\<rparr>],
           Closed \<lparr>start_time = 0, last_index = 0\<rparr>)
   \<and> client_event_generator ''S1'' 30 (AtSleep \<lparr>start_time = 0, last_index = 0\<rparr>) [timed_out_world, timed_out_world]
        = ([Yield \<lparr>event = JStr ''session_timeout'',
                   data = JObj [(''message'', JStr ''Session timed out'')]\<rparr>],
           Closed \<lparr>start_time = 0, last_index = 0\<rparr>)"
proof -
  have h1: "0 \<le> clock timed_out_world - start_time \<lparr>start_time = 0, last_index = 0\<rparr>"
    and h2: "clock timed_out_world - start_time \<lparr>start_time = 0, last_index = 0\<rparr> < 86400 * 1000000"
    and h3: "total_seconds_floor (clock timed_out_world - start_time \<lparr>start_time = 0, last_index = 0\<rparr>) > 30"
    and h4: "is_client_session_active timed_out_world ''S1''"
    by (simp_all add: timed_out_world_def total_seconds_floor_def is_client_session_active_def)
  show ?thesis
    using timeout_closes_reader [OF h1 h2 h3, of "''J1''" "[timed_out_world]" "''S1''"] h1 h2 h3 h4
    by blast
qed

text \<open>
  C5 fails on the code. A session reader whose session is active is resumed one day and
  one second after its start. Its elapsed time exceeds the timeout, be it one day
  (86400) or the endpoint's 3600, yet \<^verbatim>\<open>.seconds\<close> is 1: the reader reads the log,
  emits no frame and goes back to sleep.
\<close>

theorem session_timeout_missed_after_a_day:
  "total_seconds_floor (clock long_session_world - 0) > 86400
   \<and> is_client_session_active long_session_world ''S1''
   \<and> client_event_generator ''S1'' 86400 (AtSleep \<lparr>start_time = 0, last_index = 0\<rparr>) [long_session_world]
       = ([GetClientUpdates ''S1'' 0, Sleep], AtSleep \<lparr>start_time = 0, last_index = 0\<rparr>)
   \<and> client_event_generator ''S1'' 3600 (AtSleep \<lparr>start_time = 0, last_index = 0\<rparr>) [long_session_world]
       = ([GetClientUpdates ''S1'' 0, Sleep], AtSleep \<lparr>start_time = 0, last_index = 0\<rparr>)"
  by (simp add: long_session_world_def total_seconds_floor_def timedelta_seconds_def
      is_client_session_active_def client_event_generator_tick_def get_client_updates_def)

text \<open>
  C6, as stated, fails. A reader starts on the open session and finds nothing; while
  it sleeps one event is mirrored into the session's log and the session is closed. On
  its next tick the reader yields the \<open>session_closed\<close> frame only: the event is still in
  the log and has not been delivered.
\<close>

theorem close_loses_unread_counterexample:
  "get_client_updates session_with_unread ''S1'' 0
      = [[(''event_type'', JStr ''update''), (''task_id'', JStr ''J1'')]]
   \<and> client_event_generator ''S1'' 3600 NotStarted [session_opened, session_with_unread]
      = ([GetClientUpdates ''S1'' 0, Sleep,
          Yield \<lparr>event = JStr ''session_closed'',
                 data = JObj [(''message'', JStr ''Client session closed'')]\<rparr>],
         Closed \<lparr>start_time = 0, last_index = 0\<rparr>)"
  by (simp add: session_with_unread_def session_opened_def close_client_session_def
      send_to_client_def create_client_session_def get_client_updates_def
      client_event_generator_tick_def is_client_session_active_def session_closed_frame_def
      timedelta_seconds_def)

text \<open>
  C6, amended. Closing a session keeps its log: every slice of it reads as before. A
  reader that begins a tick after the close yields only the \<open>session_closed\<close> frame and
  closes, without reading the log; events it had not read by then stay undelivered.
\<close>

theorem closed_session_keeps_log_reader_stops:
  "get_client_updates (close_client_session w client_id) client_id k = get_client_updates w client_id k
   \<and> client_event_generator client_id timeout (AtSleep r) (close_client_session w client_id # ws)
      = ([Yield \<lparr>event = JStr ''session_closed'',
                 data = JObj [(''message'', JStr ''Client session closed'')]\<rparr>], Closed r)"
  by (simp add: close_client_session_def get_client_updates_def client_event_generator_tick_def
      is_client_session_active_def session_closed_frame_def client_event_generator_Closed
      split: option.splits)

section \<open>In-order delivery (C1) and scenario A (C2)\<close>

lemma frames_of_append: "frames_of (xs @ ys) = frames_of xs @ frames_of ys"
  by (induction xs rule: frames_of.induct) simp_all

lemma job_log_frames_append: "job_log_frames (xs @ ys) = job_log_frames xs @ job_log_frames ys"
  by (simp add: job_log_frames_def frames_of_append)

lemma prefix_drop: "prefix xs ys \<Longrightarrow> prefix (drop k xs) (drop k ys)"
  by (auto elim!: prefixE)

lemma prefix_length_append_drop: "prefix out X \<Longrightarrow> out @ drop (length out) X = X"
  by (auto elim!: prefixE)

lemma task_updates_drop: "get_stream_task_updates w task_id l = drop l (task_log task_id w)"
  by (simp add: get_stream_task_updates_def task_log_def split: option.splits)

lemma job_log_frames_update [simp]:
  "job_log_frames [Yield (update_frame w task_id u)] = [update_frame w task_id u]"
  by (simp add: job_log_frames_def update_frame_def stream_timeout_frame_def task_not_found_frame_def)

lemma data_update_frame [simp]: "data (update_frame w task_id u) = u"
  by (simp add: update_frame_def)

lemma job_for_step:
  assumes "prefix (out @ us) X" and "event_generator_for w task_id r us = (effs, s')"
      and "k + length out = last_index r"
  shows "prefix (out @ map data (job_log_frames effs) @ pending s') X
       \<and> k + length out + length (job_log_frames effs) = delivered s'"
proof (cases us)
  case Nil
  then show ?thesis using assms by (auto simp: job_log_frames_def split: if_splits)
next
  case (Cons u us')
  then show ?thesis using assms by auto
qed

lemma job_tick_step:
  assumes "prefix out (drop k (task_log task_id w))" and "k + length out = last_index r"
      and "event_generator_tick task_id timeout w r = (effs, s')"
  shows "prefix (out @ map data (job_log_frames effs) @ pending s') (drop k (task_log task_id w))
       \<and> k + length out + length (job_log_frames effs) = delivered s'"
proof -
  let ?X = "drop k (task_log task_id w)"
  consider (closing) "effs = [Yield stream_timeout_frame] \<or> effs = [Yield task_not_found_frame]" "s' = Closed r"
    | (reads) e where "event_generator_for w task_id r (drop (last_index r) (task_log task_id w)) = (e, s')"
        "effs = GetStreamTaskUpdates task_id (last_index r) # e"
    using assms(3)
    by (auto simp: event_generator_tick_def task_updates_drop Let_def split: if_splits prod.splits)
  then show ?thesis
  proof cases
    case closing
    then show ?thesis using assms(1,2) by (auto simp: job_log_frames_def)
  next
    case reads
    have "drop (last_index r) (task_log task_id w) = drop (length out) ?X"
      using assms(2) by (simp add: add.commute)
    then have "out @ drop (last_index r) (task_log task_id w) = ?X"
      using prefix_length_append_drop [OF assms(1)] by simp
    then have p: "prefix (out @ drop (last_index r) (task_log task_id w)) ?X" by simp
    have "job_log_frames effs = job_log_frames e"
      using reads(2) by (simp add: job_log_frames_def)
    then show ?thesis using job_for_step [OF p reads(1) assms(2)] by simp
  qed
qed

lemma job_resume_step:
  assumes "prefix (out @ pending s) (drop k (task_log task_id w0))"
      and "k + length out = delivered s"
      and "prefix (task_log task_id w0) (task_log task_id w)"
      and "event_generator_resume task_id timeout w s = (effs, s')"
  shows "prefix (out @ map data (job_log_frames effs) @ pending s') (drop k (task_log task_id w))
       \<and> k + length out + length (job_log_frames effs) = delivered s'"
proof -
  have g: "prefix (drop k (task_log task_id w0)) (drop k (task_log task_id w))"
    using assms(3) by (rule prefix_drop)
  have p: "prefix (out @ pending s) (drop k (task_log task_id w))"
    using assms(1) g by (rule prefix_order.trans)
  show ?thesis
  proof (cases s)
    case NotStarted
    then have "out = []" "k = 0" using assms(2) by simp_all
    then show ?thesis
      using job_tick_step [of "[]" 0 task_id w "\<lparr>start_time = clock w, last_index = 0\<rparr>" timeout effs s']
        assms(4) NotStarted by simp
  next
    case (AtYield r us)
    then show ?thesis
      using job_for_step [of out us "drop k (task_log task_id w)" w task_id
          "r\<lparr>last_index := last_index r + 1\<rparr>" effs s' k] p assms(2,4) by simp
  next
    case (AtSleep r)
    then show ?thesis using job_tick_step [of out k task_id w r timeout effs s'] p assms(2,4) by simp
  next
    case (Closed r)
    then show ?thesis using p assms(2,4) by (auto simp: job_log_frames_def)
  qed
qed

lemma job_run_inv:
  assumes "log_grows (task_log task_id) w0 ws"
      and "prefix (out @ pending s) (drop k (task_log task_id w0))"
      and "k + length out = delivered s"
      and "event_generator task_id timeout s ws = (effs, s')"
  shows "prefix (out @ map data (job_log_frames effs) @ pending s') (drop k (task_log task_id (last (w0 # ws))))
       \<and> k + length out + length (job_log_frames effs) = delivered s'"
  using assms
proof (induction ws arbitrary: w0 out s effs s')
  case Nil
  then show ?case by (simp add: job_log_frames_def)
next
  case (Cons w ws)
  obtain e1 s1 where r1: "event_generator_resume task_id timeout w s = (e1, s1)"
    by (cases "event_generator_resume task_id timeout w s")
  obtain e2 s2 where r2: "event_generator task_id timeout s1 ws = (e2, s2)"
    by (cases "event_generator task_id timeout s1 ws")
  from Cons.prems(4) r1 r2 have eq: "effs = e1 @ e2" "s' = s2" by simp_all
  from Cons.prems(1) have g: "prefix (task_log task_id w0) (task_log task_id w)"
    and gs: "log_grows (task_log task_id) w ws" by simp_all
  from job_resume_step [OF Cons.prems(2,3) g r1]
  have st: "prefix ((out @ map data (job_log_frames e1)) @ pending s1) (drop k (task_log task_id w))"
    "k + length (out @ map data (job_log_frames e1)) = delivered s1" by simp_all
  from Cons.IH [OF gs st r2] show ?case
    by (simp add: eq job_log_frames_append)
qed

lemma run_yield_cons:
  "event_generator task_id timeout (AtYield r (u # us)) (w # ws)
     = (Yield (update_frame w task_id u)
          # fst (event_generator task_id timeout (AtYield (r\<lparr>last_index := last_index r + 1\<rparr>) us) ws),
        snd (event_generator task_id timeout (AtYield (r\<lparr>last_index := last_index r + 1\<rparr>) us) ws))"
  by (simp add: split_beta)

lemma for_loop_same_world:
  "event_generator task_id timeout (AtYield r us) (replicate (Suc (length us)) w)
     = (map (\<lambda>u. Yield (update_frame w task_id u)) us
          @ (if is_stream_task_completed w task_id then [] else [Sleep]),
        (if is_stream_task_completed w task_id then Closed else AtSleep)
          (r\<lparr>last_index := last_index r + 1 + length us\<rparr>))"
proof (induction us arbitrary: r)
  case Nil
  then show ?case by simp
next
  case (Cons u us)
  have rep: "replicate (Suc (length (u # us))) w = w # replicate (Suc (length us)) w" by simp
  show ?case unfolding rep run_yield_cons Cons.IH by simp
qed

lemma poll_eq:
  "event_generator_poll task_id timeout w r =
     (if timedelta_seconds (clock w - start_time r) > timeout
      then ([Yield stream_timeout_frame], Closed r)
      else if get_stream_task w task_id = None
      then ([Yield task_not_found_frame], Closed r)
      else (GetStreamTaskUpdates task_id (last_index r)
              # map (\<lambda>u. Yield (update_frame w task_id u)) (get_stream_task_updates w task_id (last_index r))
              @ (if is_stream_task_completed w task_id then [] else [Sleep]),
            (if is_stream_task_completed w task_id then Closed else AtSleep)
              (r\<lparr>last_index := last_index r + length (get_stream_task_updates w task_id (last_index r))\<rparr>)))"
proof (cases "get_stream_task_updates w task_id (last_index r)")
  case Nil
  then show ?thesis
    by (simp add: event_generator_poll_def event_generator_tick_def)
next
  case (Cons u us)
  have "event_generator task_id timeout (AtYield r us) (replicate (Suc (length us)) w)
     = (map (\<lambda>u. Yield (update_frame w task_id u)) us
          @ (if is_stream_task_completed w task_id then [] else [Sleep]),
        (if is_stream_task_completed w task_id then Closed else AtSleep)
          (r\<lparr>last_index := last_index r + 1 + length us\<rparr>))"
    by (rule for_loop_same_world)
  then show ?thesis using Cons
    by (simp add: event_generator_poll_def event_generator_tick_def event_generator_Closed)
qed

lemma frames_of_map_Yield [simp]: "frames_of (map (\<lambda>u. Yield (f u)) us @ es) = map f us @ frames_of es"
  by (induction us) simp_all

lemma take_drop_chain:
  "l \<le> l1 \<Longrightarrow> l1 \<le> l2 \<Longrightarrow>
     take (l1 - l) (drop l L) @ take (l2 - l1) (drop l1 L) = take (l2 - l) (drop l (L::'a list))"
proof -
  assume a: "l \<le> l1" "l1 \<le> l2"
  have "drop l1 L = drop (l1 - l) (drop l L)" using a by simp
  moreover have "l2 - l = (l1 - l) + (l2 - l1)" using a by simp
  ultimately show ?thesis by (simp only: take_add)
qed

lemma seen_ge: "l \<le> seen task_id l ws"
proof (induction ws arbitrary: l)
  case Nil
  then show ?case by simp
next
  case (Cons w ws)
  have "max l (length (task_log task_id w)) \<le> seen task_id (max l (length (task_log task_id w))) ws"
    by (rule Cons.IH)
  then show ?case by simp
qed

lemma prefix_drop_take:
  assumes "prefix X L"
  shows "drop l X = take (max l (length X) - l) (drop l L)"
proof -
  from assms have "X = take (length X) L" by (auto elim!: prefixE)
  then have "drop l X = drop l (take (length X) L)" by simp
  also have "\<dots> = take (length X - l) (drop l L)" by (simp add: drop_take)
  also have "length X - l = max l (length X) - l" by simp
  finally show ?thesis .
qed

lemma polls_uncompleted:
  assumes "\<forall>w \<in> set ws. get_stream_task w task_id \<noteq> None \<and> \<not> is_stream_task_completed w task_id
             \<and> timedelta_seconds (clock w - start_time r) \<le> timeout
             \<and> prefix (task_log task_id w) L"
  shows "\<exists>effs. event_generator_polls task_id timeout (AtSleep r) ws
            = (effs, AtSleep (r\<lparr>last_index := seen task_id (last_index r) ws\<rparr>))
          \<and> frames_of effs
            = map (tagged ''update'') (take (seen task_id (last_index r) ws - last_index r) (drop (last_index r) L))"
  using assms
proof (induction ws arbitrary: r)
  case Nil
  then show ?case by simp
next
  case (Cons w ws)
  let ?l = "last_index r"
  let ?l1 = "max ?l (length (task_log task_id w))"
  let ?r1 = "r\<lparr>last_index := ?l1\<rparr>"
  from Cons.prems have hw: "get_stream_task w task_id \<noteq> None" "\<not> is_stream_task_completed w task_id"
    "timedelta_seconds (clock w - start_time r) \<le> timeout" "prefix (task_log task_id w) L"
    by simp_all
  have len: "?l + length (get_stream_task_updates w task_id ?l) = ?l1"
    by (simp add: task_updates_drop)
  have upd: "get_stream_task_updates w task_id ?l = take (?l1 - ?l) (drop ?l L)"
    using prefix_drop_take [OF hw(4)] by (simp add: task_updates_drop)
  have uf: "\<And>u. update_frame w task_id u = tagged ''update'' u"
    using hw(2) by (simp add: update_frame_def tagged_def)
  have p1: "event_generator_poll task_id timeout w r
     = (GetStreamTaskUpdates task_id ?l
          # map (\<lambda>u. Yield (tagged ''update'' u)) (take (?l1 - ?l) (drop ?l L)) @ [Sleep],
        AtSleep ?r1)"
    using hw(1,2,3) len by (simp add: poll_eq uf upd [symmetric])
  have rest: "\<forall>w \<in> set ws. get_stream_task w task_id \<noteq> None \<and> \<not> is_stream_task_completed w task_id
             \<and> timedelta_seconds (clock w - start_time ?r1) \<le> timeout
             \<and> prefix (task_log task_id w) L"
    using Cons.prems by simp
  from Cons.IH [OF rest] obtain e2 where
    e2: "event_generator_polls task_id timeout (AtSleep ?r1) ws
            = (e2, AtSleep (?r1\<lparr>last_index := seen task_id ?l1 ws\<rparr>))"
        "frames_of e2 = map (tagged ''update'') (take (seen task_id ?l1 ws - ?l1) (drop ?l1 L))"
    by auto
  have chain: "take (?l1 - ?l) (drop ?l L) @ take (seen task_id ?l1 ws - ?l1) (drop ?l1 L)
                 = take (seen task_id ?l1 ws - ?l) (drop ?l L)"
    by (rule take_drop_chain) (simp_all add: seen_ge)
  define X1 where "X1 = take (?l1 - ?l) (drop ?l L)"
  define X2 where "X2 = take (seen task_id ?l1 ws - ?l1) (drop ?l1 L)"
  have f1: "frames_of (GetStreamTaskUpdates task_id ?l
          # map (\<lambda>u. Yield (tagged ''update'' u)) X1 @ [Sleep] @ e2)
        = map (tagged ''update'') X1 @ frames_of e2"
    using frames_of_map_Yield [of "tagged ''update''" X1 "Sleep # e2"] by simp
  have f2: "map (tagged ''update'') X1 @ frames_of e2 = map (tagged ''update'') (X1 @ X2)"
    using e2(2) by (simp add: X2_def)
  have f3: "X1 @ X2 = take (seen task_id ?l1 ws - ?l) (drop ?l L)"
    using chain by (simp only: X1_def X2_def)
  have run: "event_generator_polls task_id timeout (AtSleep r) (w # ws)
      = (GetStreamTaskUpdates task_id ?l # map (\<lambda>u. Yield (tagged ''update'' u)) X1 @ [Sleep] @ e2,
         AtSleep (?r1\<lparr>last_index := seen task_id ?l1 ws\<rparr>))"
    using p1 e2(1) by (simp add: X1_def)
  have st: "?r1\<lparr>last_index := seen task_id ?l1 ws\<rparr> = r\<lparr>last_index := seen task_id ?l (w # ws)\<rparr>"
    by simp
  show ?case
    unfolding run st using f1 f2 f3 by simp
qed

lemma polls_append:
  "event_generator_polls task_id timeout s (xs @ ys) =
     (let (e1, s1) = event_generator_polls task_id timeout s xs;
          (e2, s2) = event_generator_polls task_id timeout s1 ys
      in (e1 @ e2, s2))"
proof (induction xs arbitrary: s)
  case Nil
  then show ?case by simp
next
  case (Cons w xs)
  show ?case
  proof (cases s)
    case (AtSleep r)
    then show ?thesis by (simp add: Cons.IH split: prod.splits)
  next
    case NotStarted
    then show ?thesis by (cases ys) simp_all
  next
    case (AtYield r us)
    then show ?thesis by (cases ys) simp_all
  next
    case (Closed r)
    then show ?thesis by (cases ys) simp_all
  qed
qed

lemma polls_until_completion:
  assumes "\<forall>w \<in> set ws. get_stream_task w task_id \<noteq> None \<and> \<not> is_stream_task_completed w task_id
             \<and> timedelta_seconds (clock w - start_time r) \<le> timeout
             \<and> prefix (task_log task_id w) (task_log task_id wd)"
      and "get_stream_task wd task_id \<noteq> None" and "is_stream_task_completed wd task_id"
      and "timedelta_seconds (clock wd - start_time r) \<le> timeout"
  shows "\<exists>effs r'. event_generator_polls task_id timeout (AtSleep r) (ws @ [wd]) = (effs, Closed r')
          \<and> last_index r' = max (seen task_id (last_index r) ws) (length (task_log task_id wd))
          \<and> frames_of effs
            = map (tagged ''update'')
                (take (seen task_id (last_index r) ws - last_index r) (drop (last_index r) (task_log task_id wd)))
              @ map (tagged ''complete'') (drop (seen task_id (last_index r) ws) (task_log task_id wd))"
proof -
  let ?L = "task_log task_id wd"
  let ?l = "last_index r"
  let ?l' = "seen task_id ?l ws"
  let ?r' = "r\<lparr>last_index := ?l'\<rparr>"
  from polls_uncompleted [OF assms(1)] obtain e1 where
    e1: "event_generator_polls task_id timeout (AtSleep r) ws = (e1, AtSleep ?r')"
        "frames_of e1 = map (tagged ''update'') (take (?l' - ?l) (drop ?l ?L))"
    by auto
  have uf: "\<And>u. update_frame wd task_id u = tagged ''complete'' u"
    using assms(3) by (simp add: update_frame_def tagged_def)
  have p: "event_generator_poll task_id timeout wd ?r'
     = (GetStreamTaskUpdates task_id ?l' # map (\<lambda>u. Yield (tagged ''complete'' u)) (drop ?l' ?L),
        Closed (?r'\<lparr>last_index := ?l' + length (drop ?l' ?L)\<rparr>))"
    using assms(2,3,4) by (simp add: poll_eq uf task_updates_drop)
  have "event_generator_polls task_id timeout (AtSleep r) (ws @ [wd])
     = (e1 @ GetStreamTaskUpdates task_id ?l' # map (\<lambda>u. Yield (tagged ''complete'' u)) (drop ?l' ?L),
        Closed (?r'\<lparr>last_index := ?l' + length (drop ?l' ?L)\<rparr>))"
    by (simp add: polls_append e1(1) p)
  moreover have "frames_of (e1 @ GetStreamTaskUpdates task_id ?l'
                    # map (\<lambda>u. Yield (tagged ''complete'' u)) (drop ?l' ?L))
       = map (tagged ''update'') (take (?l' - ?l) (drop ?l ?L)) @ map (tagged ''complete'') (drop ?l' ?L)"
    using frames_of_map_Yield [of "tagged ''complete''" "drop ?l' ?L" "[]"]
    by (simp add: frames_of_append e1(2))
  moreover have "last_index (?r'\<lparr>last_index := ?l' + length (drop ?l' ?L)\<rparr>) = max ?l' (length ?L)"
    by simp
  ultimately show ?thesis by blast
qed

lemma client_frame_not_closed: "client_frame u \<noteq> session_closed_frame"
  by (auto simp: client_frame_def session_closed_frame_def dict_get_def)

lemma client_log_frames_append:
  "client_log_frames (xs @ ys) = client_log_frames xs @ client_log_frames ys"
  by (simp add: client_log_frames_def frames_of_append)

lemma client_log_frames_update [simp]:
  "client_log_frames [Yield (client_frame u)] = [client_frame u]"
  using client_frame_not_closed [of u] client_frame_not_timeout [of u]
  by (simp add: client_log_frames_def)

lemma data_client_frame [simp]: "data (client_frame u) = JObj u"
  by (simp add: client_frame_def)

lemma client_updates_drop:
  "map JObj (get_client_updates w client_id l) = drop l (session_log client_id w)"
  by (simp add: get_client_updates_def session_log_def drop_map split: option.splits)

lemma client_for_step:
  assumes "prefix (out @ map JObj us) X" and "client_event_generator_for r us = (effs, s')"
      and "k + length out = last_index r"
  shows "prefix (out @ map data (client_log_frames effs) @ map JObj (pending s')) X
       \<and> k + length out + length (client_log_frames effs) = delivered s'"
proof (cases us)
  case Nil
  then show ?thesis using assms by (auto simp: client_log_frames_def)
next
  case (Cons u us')
  then show ?thesis using assms by auto
qed

lemma client_tick_step:
  assumes "prefix out (drop k (session_log client_id w))" and "k + length out = last_index r"
      and "client_event_generator_tick client_id timeout w r = (effs, s')"
  shows "prefix (out @ map data (client_log_frames effs) @ map JObj (pending s')) (drop k (session_log client_id w))
       \<and> k + length out + length (client_log_frames effs) = delivered s'"
proof -
  let ?X = "drop k (session_log client_id w)"
  consider (closing) "effs = [Yield session_closed_frame] \<or> effs = [Yield session_timeout_frame]" "s' = Closed r"
    | (reads) e where "client_event_generator_for r (get_client_updates w client_id (last_index r)) = (e, s')"
        "effs = GetClientUpdates client_id (last_index r) # e"
    using assms(3)
    by (auto simp: client_event_generator_tick_def Let_def split: if_splits prod.splits)
  then show ?thesis
  proof cases
    case closing
    then show ?thesis using assms(1,2) by (auto simp: client_log_frames_def)
  next
    case reads
    have "drop (last_index r) (session_log client_id w) = drop (length out) ?X"
      using assms(2) by (simp add: add.commute)
    then have "out @ map JObj (get_client_updates w client_id (last_index r)) = ?X"
      using prefix_length_append_drop [OF assms(1)] by (simp add: client_updates_drop)
    then have p: "prefix (out @ map JObj (get_client_updates w client_id (last_index r))) ?X" by simp
    have "client_log_frames effs = client_log_frames e"
      using reads(2) by (simp add: client_log_frames_def)
    then show ?thesis using client_for_step [OF p reads(1) assms(2)] by simp
  qed
qed

lemma client_resume_step:
  assumes "prefix (out @ map JObj (pending s)) (drop k (session_log client_id w0))"
      and "k + length out = delivered s"
      and "prefix (session_log client_id w0) (session_log client_id w)"
      and "client_event_generator_resume client_id timeout w s = (effs, s')"
  shows "prefix (out @ map data (client_log_frames effs) @ map JObj (pending s')) (drop k (session_log client_id w))
       \<and> k + length out + length (client_log_frames effs) = delivered s'"
proof -
  have g: "prefix (drop k (session_log client_id w0)) (drop k (session_log client_id w))"
    using assms(3) by (rule prefix_drop)
  have p: "prefix (out @ map JObj (pending s)) (drop k (session_log client_id w))"
    using assms(1) g by (rule prefix_order.trans)
  show ?thesis
  proof (cases s)
    case NotStarted
    then have "out = []" "k = 0" using assms(2) by simp_all
    then show ?thesis
      using client_tick_step [of "[]" 0 client_id w "\<lparr>start_time = clock w, last_index = 0\<rparr>" timeout effs s']
        assms(4) NotStarted by simp
  next
    case (AtYield r us)
    then show ?thesis
      using client_for_step [of out us "drop k (session_log client_id w)"
          "r\<lparr>last_index := last_index r + 1\<rparr>" effs s' k] p assms(2,4) by simp
  next
    case (AtSleep r)
    then show ?thesis using client_tick_step [of out k client_id w r timeout effs s'] p assms(2,4) by simp
  next
    case (Closed r)
    then show ?thesis using p assms(2,4) by (auto simp: client_log_frames_def)
  qed
qed

lemma client_run_inv:
  assumes "log_grows (session_log client_id) w0 ws"
      and "prefix (out @ map JObj (pending s)) (drop k (session_log client_id w0))"
      and "k + length out = delivered s"
      and "client_event_generator client_id timeout s ws = (effs, s')"
  shows "prefix (out @ map data (client_log_frames effs) @ map JObj (pending s'))
           (drop k (session_log client_id (last (w0 # ws))))
       \<and> k + length out + length (client_log_frames effs) = delivered s'"
  using assms
proof (induction ws arbitrary: w0 out s effs s')
  case Nil
  then show ?case by (simp add: client_log_frames_def)
next
  case (Cons w ws)
  obtain e1 s1 where r1: "client_event_generator_resume client_id timeout w s = (e1, s1)"
    by (cases "client_event_generator_resume client_id timeout w s")
  obtain e2 s2 where r2: "client_event_generator client_id timeout s1 ws = (e2, s2)"
    by (cases "client_event_generator client_id timeout s1 ws")
  from Cons.prems(4) r1 r2 have eq: "effs = e1 @ e2" "s' = s2" by simp_all
  from Cons.prems(1) have g: "prefix (session_log client_id w0) (session_log client_id w)"
    and gs: "log_grows (session_log client_id) w ws" by simp_all
  from client_resume_step [OF Cons.prems(2,3) g r1]
  have st: "prefix ((out @ map data (client_log_frames e1)) @ map JObj (pending s1)) (drop k (session_log client_id w))"
    "k + length (out @ map data (client_log_frames e1)) = delivered s1" by simp_all
  from Cons.IH [OF gs st r2] show ?case
    by (simp add: eq client_log_frames_append)
qed

lemma seen_le:
  "l \<le> n \<Longrightarrow> \<forall>w \<in> set ws. length (task_log task_id w) \<le> n \<Longrightarrow> seen task_id l ws \<le> n"
  by (induction ws arbitrary: l) simp_all

lemma data_tagged: "map data (map (tagged name) us) = us"
  by (simp add: tagged_def comp_def)

lemma seen_ge_log: "v \<in> set ws \<Longrightarrow> length (task_log task_id v) \<le> seen task_id l ws"
proof (induction ws arbitrary: l)
  case Nil
  then show ?case by simp
next
  case (Cons w ws)
  show ?case
  proof (cases "v = w")
    case True
    have "max l (length (task_log task_id w)) \<le> seen task_id (max l (length (task_log task_id w))) ws"
      by (rule seen_ge)
    then show ?thesis using True by simp
  next
    case False
    then have "v \<in> set ws" using Cons.prems by simp
    then show ?thesis using Cons.IH by simp
  qed
qed

lemma client_run_yield_cons:
  "client_event_generator client_id timeout (AtYield r (u # us)) (w # ws)
     = (Yield (client_frame u)
          # fst (client_event_generator client_id timeout (AtYield (r\<lparr>last_index := last_index r + 1\<rparr>) us) ws),
        snd (client_event_generator client_id timeout (AtYield (r\<lparr>last_index := last_index r + 1\<rparr>) us) ws))"
  by (simp add: split_beta)

lemma client_for_loop_same_world:
  "client_event_generator client_id timeout (AtYield r us) (replicate (Suc (length us)) w)
     = (map (\<lambda>u. Yield (client_frame u)) us @ [Sleep],
        AtSleep (r\<lparr>last_index := last_index r + 1 + length us\<rparr>))"
proof (induction us arbitrary: r)
  case Nil
  then show ?case by simp
next
  case (Cons u us)
  have rep: "replicate (Suc (length (u # us))) w = w # replicate (Suc (length us)) w" by simp
  show ?case unfolding rep client_run_yield_cons Cons.IH by simp
qed

lemma client_poll_eq:
  "client_event_generator_poll client_id timeout w r =
     (if \<not> is_client_session_active w client_id
      then ([Yield session_closed_frame], Closed r)
      else if timedelta_seconds (clock w - start_time r) > timeout
      then ([Yield session_timeout_frame], Closed r)
      else (GetClientUpdates client_id (last_index r)
              # map (\<lambda>u. Yield (client_frame u)) (get_client_updates w client_id (last_index r))
              @ [Sleep],
            AtSleep (r\<lparr>last_index := last_index r
                         + length (get_client_updates w client_id (last_index r))\<rparr>)))"
proof (cases "get_client_updates w client_id (last_index r)")
  case Nil
  then show ?thesis
    by (simp add: client_event_generator_poll_def client_event_generator_tick_def)
next
  case (Cons u us)
  have "client_event_generator client_id timeout (AtYield r us) (replicate (Suc (length us)) w)
     = (map (\<lambda>u. Yield (client_frame u)) us @ [Sleep],
        AtSleep (r\<lparr>last_index := last_index r + 1 + length us\<rparr>))"
    by (rule client_for_loop_same_world)
  then show ?thesis using Cons
    by (simp add: client_event_generator_poll_def client_event_generator_tick_def
        client_event_generator_Closed)
qed

lemma client_updates_slice:
  "get_client_updates w client_id l = drop l (get_client_updates w client_id 0)"
  by (simp add: get_client_updates_def split: option.splits)

lemma client_seen_ge: "l \<le> client_seen client_id l ws"
proof (induction ws arbitrary: l)
  case Nil
  then show ?case by simp
next
  case (Cons w ws)
  have "max l (length (get_client_updates w client_id 0))
          \<le> client_seen client_id (max l (length (get_client_updates w client_id 0))) ws"
    by (rule Cons.IH)
  then show ?case by simp
qed

lemma client_seen_le:
  "l \<le> n \<Longrightarrow> \<forall>w \<in> set ws. length (get_client_updates w client_id 0) \<le> n
     \<Longrightarrow> client_seen client_id l ws \<le> n"
  by (induction ws arbitrary: l) simp_all

lemma client_seen_ge_log:
  "v \<in> set ws \<Longrightarrow> length (get_client_updates v client_id 0) \<le> client_seen client_id l ws"
proof (induction ws arbitrary: l)
  case Nil
  then show ?case by simp
next
  case (Cons w ws)
  show ?case
  proof (cases "v = w")
    case True
    have "max l (length (get_client_updates w client_id 0))
            \<le> client_seen client_id (max l (length (get_client_updates w client_id 0))) ws"
      by (rule client_seen_ge)
    then show ?thesis using True by simp
  next
    case False
    then have "v \<in> set ws" using Cons.prems by simp
    then show ?thesis using Cons.IH by simp
  qed
qed

lemma client_polls_active:
  assumes "\<forall>w \<in> set ws. is_client_session_active w client_id
             \<and> timedelta_seconds (clock w - start_time r) \<le> timeout
             \<and> prefix (get_client_updates w client_id 0) L"
  shows "\<exists>effs. client_event_generator_polls client_id timeout (AtSleep r) ws
            = (effs, AtSleep (r\<lparr>last_index := client_seen client_id (last_index r) ws\<rparr>))
          \<and> frames_of effs
            = map client_frame
                (take (client_seen client_id (last_index r) ws - last_index r) (drop (last_index r) L))"
  using assms
proof (induction ws arbitrary: r)
  case Nil
  then show ?case by simp
next
  case (Cons w ws)
  let ?l = "last_index r"
  let ?l1 = "max ?l (length (get_client_updates w client_id 0))"
  let ?r1 = "r\<lparr>last_index := ?l1\<rparr>"
  from Cons.prems have hw: "is_client_session_active w client_id"
    "timedelta_seconds (clock w - start_time r) \<le> timeout"
    "prefix (get_client_updates w client_id 0) L"
    by simp_all
  have len: "?l + length (get_client_updates w client_id ?l) = ?l1"
    using client_updates_slice [of w client_id ?l] by simp
  have upd: "get_client_updates w client_id ?l = take (?l1 - ?l) (drop ?l L)"
    using prefix_drop_take [OF hw(3), of ?l] client_updates_slice [of w client_id ?l] by simp
  define X1 where "X1 = take (?l1 - ?l) (drop ?l L)"
  define X2 where "X2 = take (client_seen client_id ?l1 ws - ?l1) (drop ?l1 L)"
  have p1: "client_event_generator_poll client_id timeout w r
     = (GetClientUpdates client_id ?l # map (\<lambda>u. Yield (client_frame u)) X1 @ [Sleep], AtSleep ?r1)"
    using hw(1,2) len by (simp add: client_poll_eq upd [symmetric] X1_def)
  have rest: "\<forall>w \<in> set ws. is_client_session_active w client_id
             \<and> timedelta_seconds (clock w - start_time ?r1) \<le> timeout
             \<and> prefix (get_client_updates w client_id 0) L"
    using Cons.prems by simp
  from Cons.IH [OF rest] obtain e2 where
    e2: "client_event_generator_polls client_id timeout (AtSleep ?r1) ws
            = (e2, AtSleep (?r1\<lparr>last_index := client_seen client_id ?l1 ws\<rparr>))"
        "frames_of e2 = map client_frame X2"
    by (auto simp: X2_def)
  have chain: "X1 @ X2 = take (client_seen client_id ?l1 ws - ?l) (drop ?l L)"
    unfolding X1_def X2_def by (rule take_drop_chain) (simp_all add: client_seen_ge)
  have f1: "frames_of (GetClientUpdates client_id ?l
          # map (\<lambda>u. Yield (client_frame u)) X1 @ [Sleep] @ e2)
        = map client_frame X1 @ frames_of e2"
    using frames_of_map_Yield [of client_frame X1 "Sleep # e2"] by simp
  have f2: "map client_frame X1 @ frames_of e2 = map client_frame (X1 @ X2)"
    using e2(2) by simp
  have run: "client_event_generator_polls client_id timeout (AtSleep r) (w # ws)
      = (GetClientUpdates client_id ?l # map (\<lambda>u. Yield (client_frame u)) X1 @ [Sleep] @ e2,
         AtSleep (?r1\<lparr>last_index := client_seen client_id ?l1 ws\<rparr>))"
    using p1 e2(1) by simp
  have st: "?r1\<lparr>last_index := client_seen client_id ?l1 ws\<rparr>
              = r\<lparr>last_index := client_seen client_id ?l (w # ws)\<rparr>"
    by simp
  show ?case
    unfolding run st using f1 f2 chain by simp
qed

lemma client_polls_append:
  "client_event_generator_polls client_id timeout s (xs @ ys) =
     (let (e1, s1) = client_event_generator_polls client_id timeout s xs;
          (e2, s2) = client_event_generator_polls client_id timeout s1 ys
      in (e1 @ e2, s2))"
proof (induction xs arbitrary: s)
  case Nil
  then show ?case by simp
next
  case (Cons w xs)
  show ?case
  proof (cases s)
    case (AtSleep r)
    then show ?thesis by (simp add: Cons.IH split: prod.splits)
  next
    case NotStarted
    then show ?thesis by (cases ys) simp_all
  next
    case (AtYield r us)
    then show ?thesis by (cases ys) simp_all
  next
    case (Closed r)
    then show ?thesis by (cases ys) simp_all
  qed
qed

lemma log_grows_prefix_last:
  "log_grows lg w ws \<Longrightarrow> v \<in> set (w # ws) \<Longrightarrow> prefix (lg v) (lg (last (w # ws)))"
proof (induction ws arbitrary: w v)
  case Nil
  then show ?case by simp
next
  case (Cons w' ws)
  from Cons.prems(1) have g: "prefix (lg w) (lg w')" "log_grows lg w' ws" by simp_all
  have l: "prefix (lg w') (lg (last (w' # ws)))" using Cons.IH [OF g(2), of w'] by simp
  show ?case
  proof (cases "v = w")
    case True
    have "prefix (lg w) (lg (last (w' # ws)))" using g(1) l by (rule prefix_order.trans)
    then show ?thesis using True by simp
  next
    case False
    then have "v \<in> set (w' # ws)" using Cons.prems(2) by simp
    then have "prefix (lg v) (lg (last (w' # ws)))" by (rule Cons.IH [OF g(2)])
    then show ?thesis by simp
  qed
qed

lemma prefix_map_JObj: "prefix (map JObj xs) (map JObj ys) \<Longrightarrow> prefix xs ys"
proof -
  assume "prefix (map JObj xs) (map JObj ys)"
  then have "map JObj xs = take (length xs) (map JObj ys)"
    by (auto elim!: prefixE)
  then have "map JObj xs = map JObj (take (length xs) ys)" by (simp add: take_map)
  then have "xs = take (length xs) ys"
    by (simp add: inj_on_def)
  then show ?thesis by (metis take_is_prefix)
qed

lemma take_whole_drop: "take (max l (length L) - l) (drop l L) = drop l (L::'a list)"
  by simp

lemma job_polls_then_closing:
  assumes "log_grows (task_log task_id) w ws"
      and "\<forall>v \<in> set (w # ws). get_stream_task v task_id \<noteq> None \<and> \<not> is_stream_task_completed v task_id
             \<and> timedelta_seconds (clock v - start_time r) \<le> timeout"
      and "timedelta_seconds (clock wc - start_time r) > timeout \<or> get_stream_task wc task_id = None"
  shows "\<exists>effs. event_generator_polls task_id timeout (AtSleep r) ((w # ws) @ [wc])
            = (effs, Closed (r\<lparr>last_index := last_index r
                 + length (get_stream_task_updates (last (w # ws)) task_id (last_index r))\<rparr>))
          \<and> frames_of effs
            = map (tagged ''update'') (get_stream_task_updates (last (w # ws)) task_id (last_index r))
              @ [if timedelta_seconds (clock wc - start_time r) > timeout
                 then stream_timeout_frame else task_not_found_frame]"
proof -
  define ticks where "ticks = w # ws"
  define c where "c = (if timedelta_seconds (clock wc - start_time r) > timeout
                 then stream_timeout_frame else task_not_found_frame)"
  define L where "L = task_log task_id (last ticks)"
  define l' where "l' = seen task_id (last_index r) ticks"
  let ?l = "last_index r"
  have pre: "\<forall>v \<in> set ticks. get_stream_task v task_id \<noteq> None \<and> \<not> is_stream_task_completed v task_id
             \<and> timedelta_seconds (clock v - start_time r) \<le> timeout
             \<and> prefix (task_log task_id v) L"
    unfolding ticks_def L_def using assms(2) log_grows_prefix_last [OF assms(1)] by blast
  from polls_uncompleted [OF pre] obtain e1 where
    e1: "event_generator_polls task_id timeout (AtSleep r) ticks = (e1, AtSleep (r\<lparr>last_index := l'\<rparr>))"
        "frames_of e1 = map (tagged ''update'') (take (l' - ?l) (drop ?l L))"
    unfolding l'_def by blast
  have "\<forall>v \<in> set ticks. length (task_log task_id v) \<le> max ?l (length L)"
  proof
    fix v assume "v \<in> set ticks"
    with pre have "prefix (task_log task_id v) L" by blast
    then have "length (task_log task_id v) \<le> length L" by (rule prefix_length_le)
    then show "length (task_log task_id v) \<le> max ?l (length L)" by simp
  qed
  then have le: "l' \<le> max ?l (length L)" unfolding l'_def by (intro seen_le) simp_all
  have "last ticks \<in> set ticks" unfolding ticks_def by (rule last_in_set) simp
  then have "length (task_log task_id (last ticks)) \<le> seen task_id ?l ticks" by (rule seen_ge_log)
  then have "length L \<le> l'" by (simp add: L_def l'_def)
  moreover have "?l \<le> l'" unfolding l'_def by (rule seen_ge)
  ultimately have sn: "l' = max ?l (length L)" using le by simp
  have sl: "get_stream_task_updates (last ticks) task_id ?l = drop ?l L"
    unfolding L_def by (rule task_updates_drop)
  have fr: "take (l' - ?l) (drop ?l L) = get_stream_task_updates (last ticks) task_id ?l"
    unfolding sn take_whole_drop sl ..
  have idx: "l' = ?l + length (get_stream_task_updates (last ticks) task_id ?l)"
    unfolding sn sl by simp
  have p: "event_generator_poll task_id timeout wc (r\<lparr>last_index := l'\<rparr>)
     = ([Yield c], Closed (r\<lparr>last_index := l'\<rparr>))"
    using assms(3) by (auto simp: poll_eq c_def)
  have run: "event_generator_polls task_id timeout (AtSleep r) (ticks @ [wc])
     = (e1 @ [Yield c], Closed (r\<lparr>last_index := l'\<rparr>))"
    using e1(1) p by (simp add: polls_append)
  have frames: "frames_of (e1 @ [Yield c])
       = map (tagged ''update'') (get_stream_task_updates (last ticks) task_id ?l) @ [c]"
    using e1(2) fr by (simp add: frames_of_append)
  note idx' = idx [unfolded ticks_def]
  show ?thesis
    using run frames unfolding ticks_def c_def idx' by blast
qed

lemma log_grows_session_entries:
  "log_grows (session_log client_id) w ws
     \<Longrightarrow> log_grows (\<lambda>w. get_client_updates w client_id 0) w ws"
  by (induction ws arbitrary: w) (auto simp: session_log_def dest: prefix_map_JObj)

lemma client_polls_then_closing:
  assumes "log_grows (session_log client_id) w ws"
      and "\<forall>v \<in> set (w # ws). is_client_session_active v client_id
             \<and> timedelta_seconds (clock v - start_time r) \<le> timeout"
      and "\<not> is_client_session_active wc client_id
             \<or> timedelta_seconds (clock wc - start_time r) > timeout"
  shows "\<exists>effs. client_event_generator_polls client_id timeout (AtSleep r) ((w # ws) @ [wc])
            = (effs, Closed (r\<lparr>last_index := last_index r
                 + length (get_client_updates (last (w # ws)) client_id (last_index r))\<rparr>))
          \<and> frames_of effs
            = map client_frame (get_client_updates (last (w # ws)) client_id (last_index r))
              @ [if \<not> is_client_session_active wc client_id
                 then session_closed_frame else session_timeout_frame]"
proof -
  define ticks where "ticks = w # ws"
  define c where "c = (if \<not> is_client_session_active wc client_id
                 then session_closed_frame else session_timeout_frame)"
  define L where "L = get_client_updates (last ticks) client_id 0"
  define l' where "l' = client_seen client_id (last_index r) ticks"
  let ?l = "last_index r"
  have g: "log_grows (\<lambda>w. get_client_updates w client_id 0) w ws"
    using assms(1) by (rule log_grows_session_entries)
  have pre: "\<forall>v \<in> set ticks. is_client_session_active v client_id
             \<and> timedelta_seconds (clock v - start_time r) \<le> timeout
             \<and> prefix (get_client_updates v client_id 0) L"
    unfolding ticks_def L_def using assms(2) log_grows_prefix_last [OF g] by blast
  from client_polls_active [OF pre] obtain e1 where
    e1: "client_event_generator_polls client_id timeout (AtSleep r) ticks
           = (e1, AtSleep (r\<lparr>last_index := l'\<rparr>))"
        "frames_of e1 = map client_frame (take (l' - ?l) (drop ?l L))"
    unfolding l'_def by blast
  have "\<forall>v \<in> set ticks. length (get_client_updates v client_id 0) \<le> max ?l (length L)"
  proof
    fix v assume "v \<in> set ticks"
    with pre have "prefix (get_client_updates v client_id 0) L" by blast
    then have "length (get_client_updates v client_id 0) \<le> length L" by (rule prefix_length_le)
    then show "length (get_client_updates v client_id 0) \<le> max ?l (length L)" by simp
  qed
  then have le: "l' \<le> max ?l (length L)" unfolding l'_def by (intro client_seen_le) simp_all
  have "last ticks \<in> set ticks" unfolding ticks_def by (rule last_in_set) simp
  then have "length (get_client_updates (last ticks) client_id 0) \<le> client_seen client_id ?l ticks"
    by (rule client_seen_ge_log)
  then have "length L \<le> l'" by (simp add: L_def l'_def)
  moreover have "?l \<le> l'" unfolding l'_def by (rule client_seen_ge)
  ultimately have sn: "l' = max ?l (length L)" using le by simp
  have sl: "get_client_updates (last ticks) client_id ?l = drop ?l L"
    unfolding L_def by (rule client_updates_slice)
  have fr: "take (l' - ?l) (drop ?l L) = get_client_updates (last ticks) client_id ?l"
    unfolding sn take_whole_drop sl ..
  have idx: "l' = ?l + length (get_client_updates (last ticks) client_id ?l)"
    unfolding sn sl by simp
  have p: "client_event_generator_poll client_id timeout wc (r\<lparr>last_index := l'\<rparr>)
     = ([Yield c], Closed (r\<lparr>last_index := l'\<rparr>))"
    using assms(3) by (auto simp: client_poll_eq c_def)
  have run: "client_event_generator_polls client_id timeout (AtSleep r) (ticks @ [wc])
     = (e1 @ [Yield c], Closed (r\<lparr>last_index := l'\<rparr>))"
    using e1(1) p by (simp add: client_polls_append)
  have frames: "frames_of (e1 @ [Yield c])
       = map client_frame (get_client_updates (last ticks) client_id ?l) @ [c]"
    using e1(2) fr by (simp add: frames_of_append)
  note idx' = idx [unfolded ticks_def]
  show ?thesis
    using run frames unfolding ticks_def c_def idx' by blast
qed

text \<open>
  C1, amended. For an append-only log and a reader at the head of its loop with cursor
  \<open>k\<close> (\<open>last_index r\<close>): whatever the interleaving with the producer, the log frames the
  job reader or the session reader has emitted carry, in order and each once, a prefix
  of the final log minus its first \<open>k\<close> entries, and the cursor has advanced by one per
  such frame. With undisturbed ticks: a job reader that does not time out and whose last
  tick finds the job completed closes with exactly the final log minus its first \<open>k\<close>
  entries emitted; a session reader that polls an active session without timing out and
  then finds the session inactive or its time over has emitted one frame for every entry
  from index \<open>k\<close> on of the log as it stood at its last reading tick, in order, followed
  by the one closing frame, and its cursor has advanced by the number of those entries;
  likewise a job reader that polls a running job and is then closed by its timeout or
  by the task having gone. Closing frames are not log entries, and entries appended
  after the last reading tick are not delivered.
\<close>

theorem reader_delivers_log_in_order:
  "(log_grows (task_log task_id) w ws
      \<and> event_generator task_id timeout (AtSleep r) (w # ws) = (effs, s') \<longrightarrow>
        prefix (map data (job_log_frames effs)) (drop (last_index r) (task_log task_id (last (w # ws))))
        \<and> last_index r + length (job_log_frames effs) = delivered s')
   \<and> (log_grows (session_log client_id) cw cws
      \<and> client_event_generator client_id ctimeout (AtSleep cr) (cw # cws) = (ceffs, cs') \<longrightarrow>
        prefix (map data (client_log_frames ceffs)) (drop (last_index cr) (session_log client_id (last (cw # cws))))
        \<and> last_index cr + length (client_log_frames ceffs) = delivered cs')
   \<and> ((\<forall>v \<in> set ticks. get_stream_task v task_id \<noteq> None \<and> \<not> is_stream_task_completed v task_id
             \<and> timedelta_seconds (clock v - start_time r) \<le> timeout
             \<and> prefix (task_log task_id v) (task_log task_id wd))
      \<and> get_stream_task wd task_id \<noteq> None \<and> is_stream_task_completed wd task_id
      \<and> timedelta_seconds (clock wd - start_time r) \<le> timeout \<longrightarrow>
        (\<exists>peffs r'. event_generator_polls task_id timeout (AtSleep r) (ticks @ [wd]) = (peffs, Closed r')
           \<and> map data (frames_of peffs) = drop (last_index r) (task_log task_id wd)
           \<and> last_index r' = last_index r + length (frames_of peffs)))
   \<and> (log_grows (session_log client_id) sw sws
      \<and> (\<forall>v \<in> set (sw # sws). is_client_session_active v client_id
             \<and> timedelta_seconds (clock v - start_time cr) \<le> ctimeout)
      \<and> (\<not> is_client_session_active swc client_id
             \<or> timedelta_seconds (clock swc - start_time cr) > ctimeout) \<longrightarrow>
        (\<exists>seffs. client_event_generator_polls client_id ctimeout (AtSleep cr) ((sw # sws) @ [swc])
             = (seffs, Closed (cr\<lparr>last_index := last_index cr
                  + length (get_client_updates (last (sw # sws)) client_id (last_index cr))\<rparr>))
           \<and> frames_of seffs
             = map client_frame (get_client_updates (last (sw # sws)) client_id (last_index cr))
               @ [if \<not> is_client_session_active swc client_id
                  then session_closed_frame else session_timeout_frame]))
   \<and> (log_grows (task_log task_id) jw jws
      \<and> (\<forall>v \<in> set (jw # jws). get_stream_task v task_id \<noteq> None
             \<and> \<not> is_stream_task_completed v task_id
             \<and> timedelta_seconds (clock v - start_time r) \<le> timeout)
      \<and> (timedelta_seconds (clock jwc - start_time r) > timeout
             \<or> get_stream_task jwc task_id = None) \<longrightarrow>
        (\<exists>jeffs. event_generator_polls task_id timeout (AtSleep r) ((jw # jws) @ [jwc])
             = (jeffs, Closed (r\<lparr>last_index := last_index r
                  + length (get_stream_task_updates (last (jw # jws)) task_id (last_index r))\<rparr>))
           \<and> frames_of jeffs
             = map (tagged ''update'') (get_stream_task_updates (last (jw # jws)) task_id (last_index r))
               @ [if timedelta_seconds (clock jwc - start_time r) > timeout
                  then stream_timeout_frame else task_not_found_frame]))"
proof (intro conjI impI)
  assume a: "log_grows (task_log task_id) w ws
      \<and> event_generator task_id timeout (AtSleep r) (w # ws) = (effs, s')"
  then have g: "log_grows (task_log task_id) w (w # ws)" by simp
  from a have run: "event_generator task_id timeout (AtSleep r) (w # ws) = (effs, s')" by simp
  have i1: "prefix ([] @ pending (AtSleep r :: json gen_state)) (drop (last_index r) (task_log task_id w))"
    by simp
  have i2: "last_index r + length ([]::json list) = delivered (AtSleep r :: json gen_state)" by simp
  have "prefix ([] @ map data (job_log_frames effs) @ pending s')
           (drop (last_index r) (task_log task_id (last (w # w # ws))))
       \<and> last_index r + length ([]::json list) + length (job_log_frames effs) = delivered s'"
    by (rule job_run_inv [OF g i1 i2 run])
  then show "prefix (map data (job_log_frames effs)) (drop (last_index r) (task_log task_id (last (w # ws))))"
    and "last_index r + length (job_log_frames effs) = delivered s'"
    using append_prefixD [of "map data (job_log_frames effs)" "pending s'"] by simp_all
next
  assume a: "log_grows (session_log client_id) cw cws
      \<and> client_event_generator client_id ctimeout (AtSleep cr) (cw # cws) = (ceffs, cs')"
  then have g: "log_grows (session_log client_id) cw (cw # cws)" by simp
  from a have run: "client_event_generator client_id ctimeout (AtSleep cr) (cw # cws) = (ceffs, cs')" by simp
  have i1: "prefix ([] @ map JObj (pending (AtSleep cr :: (string \<times> json) list gen_state)))
              (drop (last_index cr) (session_log client_id cw))"
    by simp
  have i2: "last_index cr + length ([]::json list) = delivered (AtSleep cr :: (string \<times> json) list gen_state)"
    by simp
  have "prefix ([] @ map data (client_log_frames ceffs) @ map JObj (pending cs'))
           (drop (last_index cr) (session_log client_id (last (cw # cw # cws))))
       \<and> last_index cr + length ([]::json list) + length (client_log_frames ceffs) = delivered cs'"
    by (rule client_run_inv [OF g i1 i2 run])
  then show "prefix (map data (client_log_frames ceffs)) (drop (last_index cr) (session_log client_id (last (cw # cws))))"
    and "last_index cr + length (client_log_frames ceffs) = delivered cs'"
    using append_prefixD [of "map data (client_log_frames ceffs)" "map JObj (pending cs')"] by simp_all
next
  let ?L = "task_log task_id wd"
  let ?l = "last_index r"
  let ?l' = "seen task_id ?l ticks"
  assume a: "(\<forall>v \<in> set ticks. get_stream_task v task_id \<noteq> None \<and> \<not> is_stream_task_completed v task_id
             \<and> timedelta_seconds (clock v - start_time r) \<le> timeout
             \<and> prefix (task_log task_id v) (task_log task_id wd))
      \<and> get_stream_task wd task_id \<noteq> None \<and> is_stream_task_completed wd task_id
      \<and> timedelta_seconds (clock wd - start_time r) \<le> timeout"
  then obtain peffs r' where
    run: "event_generator_polls task_id timeout (AtSleep r) (ticks @ [wd]) = (peffs, Closed r')"
    and idx: "last_index r' = max ?l' (length ?L)"
    and fr: "frames_of peffs = map (tagged ''update'') (take (?l' - ?l) (drop ?l ?L))
              @ map (tagged ''complete'') (drop ?l' ?L)"
    using polls_until_completion [of ticks task_id r timeout wd] by blast
  have ge: "?l \<le> ?l'" by (rule seen_ge)
  have "\<forall>v \<in> set ticks. length (task_log task_id v) \<le> max ?l (length ?L)"
  proof
    fix v assume "v \<in> set ticks"
    with a have "prefix (task_log task_id v) ?L" by blast
    then have "length (task_log task_id v) \<le> length ?L" by (rule prefix_length_le)
    then show "length (task_log task_id v) \<le> max ?l (length ?L)" by simp
  qed
  then have le: "?l' \<le> max ?l (length ?L)" by (intro seen_le) simp_all
  have "drop ?l' ?L = drop (?l' - ?l) (drop ?l ?L)" using ge by simp
  then have d: "map data (frames_of peffs) = drop ?l ?L"
    unfolding fr map_append data_tagged by (simp only: append_take_drop_id)
  have "last_index r' = ?l + length (frames_of peffs)"
  proof -
    have "length (frames_of peffs) = length (drop ?l ?L)"
      using d by (metis length_map)
    then show ?thesis using idx ge le by simp
  qed
  then show "\<exists>peffs r'. event_generator_polls task_id timeout (AtSleep r) (ticks @ [wd]) = (peffs, Closed r')
           \<and> map data (frames_of peffs) = drop (last_index r) (task_log task_id wd)
           \<and> last_index r' = last_index r + length (frames_of peffs)"
    using run d by blast
next
  assume a: "log_grows (session_log client_id) sw sws
      \<and> (\<forall>v \<in> set (sw # sws). is_client_session_active v client_id
             \<and> timedelta_seconds (clock v - start_time cr) \<le> ctimeout)
      \<and> (\<not> is_client_session_active swc client_id
             \<or> timedelta_seconds (clock swc - start_time cr) > ctimeout)"
  have h: "log_grows (session_log client_id) sw sws"
    "\<forall>v \<in> set (sw # sws). is_client_session_active v client_id
             \<and> timedelta_seconds (clock v - start_time cr) \<le> ctimeout"
    "\<not> is_client_session_active swc client_id
             \<or> timedelta_seconds (clock swc - start_time cr) > ctimeout"
    using a conjunct1 [OF a] conjunct1 [OF conjunct2 [OF a]] conjunct2 [OF conjunct2 [OF a]]
    by - assumption+
  show "\<exists>seffs. client_event_generator_polls client_id ctimeout (AtSleep cr) ((sw # sws) @ [swc])
             = (seffs, Closed (cr\<lparr>last_index := last_index cr
                  + length (get_client_updates (last (sw # sws)) client_id (last_index cr))\<rparr>))
           \<and> frames_of seffs
             = map client_frame (get_client_updates (last (sw # sws)) client_id (last_index cr))
               @ [if \<not> is_client_session_active swc client_id
                  then session_closed_frame else session_timeout_frame]"
    by (rule client_polls_then_closing [OF h])
next
  assume a: "log_grows (task_log task_id) jw jws
      \<and> (\<forall>v \<in> set (jw # jws). get_stream_task v task_id \<noteq> None
             \<and> \<not> is_stream_task_completed v task_id
             \<and> timedelta_seconds (clock v - start_time r) \<le> timeout)
      \<and> (timedelta_seconds (clock jwc - start_time r) > timeout
             \<or> get_stream_task jwc task_id = None)"
  have h: "log_grows (task_log task_id) jw jws"
    "\<forall>v \<in> set (jw # jws). get_stream_task v task_id \<noteq> None
             \<and> \<not> is_stream_task_completed v task_id
             \<and> timedelta_seconds (clock v - start_time r) \<le> timeout"
    "timedelta_seconds (clock jwc - start_time r) > timeout
             \<or> get_stream_task jwc task_id = None"
    using a conjunct1 [OF a] conjunct1 [OF conjunct2 [OF a]] conjunct2 [OF conjunct2 [OF a]]
    by - assumption+
  show "\<exists>jeffs. event_generator_polls task_id timeout (AtSleep r) ((jw # jws) @ [jwc])
             = (jeffs, Closed (r\<lparr>last_index := last_index r
                  + length (get_stream_task_updates (last (jw # jws)) task_id (last_index r))\<rparr>))
           \<and> frames_of jeffs
             = map (tagged ''update'') (get_stream_task_updates (last (jw # jws)) task_id (last_index r))
               @ [if timedelta_seconds (clock jwc - start_time r) > timeout
                  then stream_timeout_frame else task_not_found_frame]"
    by (rule job_polls_then_closing [OF h])
qed

theorem reader_delivers_log_in_order_witness:
  "log_grows (task_log ''J1'') (job_world [step1] False 0)
      [job_world [step1, step2] False 200000, job_world [step1, step2] False 500000]
   \<and> event_generator ''J1'' 30 (AtSleep fresh_reader)
        (job_world [step1] False 0
           # [job_world [step1, step2] False 200000, job_world [step1, step2] False 500000])
      = ([GetStreamTaskUpdates ''J1'' 0, Yield \<lparr>event = JStr ''update'', data = step1\<rparr>, Sleep,
          GetStreamTaskUpdates ''J1'' 1, Yield \<lparr>event = JStr ''update'', data = step2\<rparr>],
         AtYield \<lparr>start_time = 0, last_index = 1\<rparr> [])
   \<and> map data (job_log_frames
        [GetStreamTaskUpdates ''J1'' 0, Yield \<lparr>event = JStr ''update'', data = step1\<rparr>, Sleep,
         GetStreamTaskUpdates ''J1'' 1, Yield \<lparr>event = JStr ''update'', data = step2\<rparr>])
      = [step1, step2]
   \<and> prefix [step1, step2]
        (drop (last_index fresh_reader) (task_log ''J1'' (job_world [step1, step2] False 500000)))
   \<and> last_index fresh_reader + 2 = delivered (AtYield \<lparr>start_time = 0, last_index = 1\<rparr> ([]::json list))
   \<and> log_grows (session_log ''S1'') (client_world [progress_event] True 0)
        [client_world [progress_event, plain_event] True 200000,
         client_world [progress_event, plain_event] False 500000]
   \<and> prefix (map data (client_log_frames (fst (client_event_generator ''S1'' 3600 (AtSleep fresh_reader)
        (client_world [progress_event] True 0
           # [client_world [progress_event, plain_event] True 200000,
              client_world [progress_event, plain_event] False 500000])))))
        (drop (last_index fresh_reader)
           (session_log ''S1'' (client_world [progress_event, plain_event] False 500000)))
   \<and> get_stream_task (job_world [step1] False 0) ''J1'' \<noteq> None
   \<and> \<not> is_stream_task_completed (job_world [step1] False 0) ''J1''
   \<and> timedelta_seconds (clock (job_world [step1] False 0) - start_time fresh_reader) \<le> 30
   \<and> prefix (task_log ''J1'' (job_world [step1] False 0)) (task_log ''J1'' (job_world [step1, step2, ok_result] True 1000000))
   \<and> get_stream_task (job_world [step1, step2] False 500000) ''J1'' \<noteq> None
   \<and> \<not> is_stream_task_completed (job_world [step1, step2] False 500000) ''J1''
   \<and> timedelta_seconds (clock (job_world [step1, step2] False 500000) - start_time fresh_reader) \<le> 30
   \<and> prefix (task_log ''J1'' (job_world [step1, step2] False 500000)) (task_log ''J1'' (job_world [step1, step2, ok_result] True 1000000))
   \<and> get_stream_task (job_world [step1, step2, ok_result] True 1000000) ''J1'' \<noteq> None
   \<and> is_stream_task_completed (job_world [step1, step2, ok_result] True 1000000) ''J1''
   \<and> timedelta_seconds (clock (job_world [step1, step2, ok_result] True 1000000) - start_time fresh_reader) \<le> 30
   \<and> (\<exists>peffs r'. event_generator_polls ''J1'' 30 (AtSleep fresh_reader)
          ([job_world [step1] False 0, job_world [step1, step2] False 500000]
             @ [job_world [step1, step2, ok_result] True 1000000]) = (peffs, Closed r')
        \<and> map data (frames_of peffs)
            = drop (last_index fresh_reader) (task_log ''J1'' (job_world [step1, step2, ok_result] True 1000000))
        \<and> last_index r' = last_index fresh_reader + length (frames_of peffs))
   \<and> log_grows (session_log ''S1'') (client_world [progress_event] True 0)
        [client_world [progress_event, plain_event] True 200000]
   \<and> is_client_session_active (client_world [progress_event] True 0) ''S1''
   \<and> timedelta_seconds (clock (client_world [progress_event] True 0) - start_time fresh_reader) \<le> 3600
   \<and> is_client_session_active (client_world [progress_event, plain_event] True 200000) ''S1''
   \<and> timedelta_seconds (clock (client_world [progress_event, plain_event] True 200000)
         - start_time fresh_reader) \<le> 3600
   \<and> \<not> is_client_session_active (client_world [progress_event, plain_event] False 500000) ''S1''
   \<and> client_event_generator_polls ''S1'' 3600 (AtSleep fresh_reader)
        ((client_world [progress_event] True 0
            # [client_world [progress_event, plain_event] True 200000])
           @ [client_world [progress_event, plain_event] False 500000])
      = ([GetClientUpdates ''S1'' 0, Yield (client_frame progress_event), Sleep,
          GetClientUpdates ''S1'' 1, Yield (client_frame plain_event), Sleep,
          Yield session_closed_frame],
         Closed \<lparr>start_time = 0, last_index = 2\<rparr>)
   \<and> (\<exists>seffs. client_event_generator_polls ''S1'' 3600 (AtSleep fresh_reader)
        ((client_world [progress_event] True 0
            # [client_world [progress_event, plain_event] True 200000])
           @ [client_world [progress_event, plain_event] False 500000])
         = (seffs, Closed (fresh_reader\<lparr>last_index := last_index fresh_reader + 2\<rparr>))
       \<and> frames_of seffs
         = [client_frame progress_event, client_frame plain_event, session_closed_frame])
   \<and> log_grows (task_log ''J1'') (job_world [step1] False 0) [job_world [step1, step2] False 500000]
   \<and> timedelta_seconds (clock (job_world [step1, step2] False 31000000) - start_time fresh_reader) > 30
   \<and> (\<exists>jeffs. event_generator_polls ''J1'' 30 (AtSleep fresh_reader)
        ((job_world [step1] False 0 # [job_world [step1, step2] False 500000])
           @ [job_world [step1, step2] False 31000000])
         = (jeffs, Closed (fresh_reader\<lparr>last_index := last_index fresh_reader + 2\<rparr>))
       \<and> frames_of jeffs
         = [tagged ''update'' step1, tagged ''update'' step2, stream_timeout_frame])"
proof -
  let ?wA = "job_world [step1] False 0"
  let ?wB = "job_world [step1, step2] False 200000"
  let ?wC = "job_world [step1, step2] False 500000"
  let ?wd = "job_world [step1, step2, ok_result] True 1000000"
  let ?cA = "client_world [progress_event] True 0"
  let ?cB = "client_world [progress_event, plain_event] True 200000"
  let ?cC = "client_world [progress_event, plain_event] False 500000"
  let ?E = "[GetStreamTaskUpdates ''J1'' 0, Yield \<lparr>event = JStr ''update'', data = step1\<rparr>, Sleep,
          GetStreamTaskUpdates ''J1'' 1, Yield \<lparr>event = JStr ''update'', data = step2\<rparr>]"
  let ?S = "AtYield \<lparr>start_time = 0, last_index = 1\<rparr> ([]::json list)"
  have g1: "log_grows (task_log ''J1'') ?wA [?wB, ?wC]"
    by (simp add: job_world_def task_log_def get_stream_task_updates_def)
  have r1: "event_generator ''J1'' 30 (AtSleep fresh_reader) (?wA # [?wB, ?wC]) = (?E, ?S)"
    by (simp add: fresh_reader_def job_world_def event_generator_tick_def timedelta_seconds_def
        get_stream_task_def get_stream_task_updates_def is_stream_task_completed_def update_frame_def)
  have f1: "map data (job_log_frames ?E) = [step1, step2]"
    by (simp add: job_log_frames_def stream_timeout_frame_def task_not_found_frame_def)
  have l1: "task_log ''J1'' (last (?wA # [?wB, ?wC])) = task_log ''J1'' ?wC" by simp
  have g2: "log_grows (session_log ''S1'') ?cA [?cB, ?cC]"
    by (simp add: client_world_def session_log_def get_client_updates_def)
  have r2: "client_event_generator ''S1'' 3600 (AtSleep fresh_reader) (?cA # [?cB, ?cC])
      = (fst (client_event_generator ''S1'' 3600 (AtSleep fresh_reader) (?cA # [?cB, ?cC])),
         snd (client_event_generator ''S1'' 3600 (AtSleep fresh_reader) (?cA # [?cB, ?cC])))"
    by simp
  have l2: "session_log ''S1'' (last (?cA # [?cB, ?cC])) = session_log ''S1'' ?cC" by simp
  have h6: "\<forall>v \<in> set [?wA, ?wC].
         get_stream_task v ''J1'' \<noteq> None \<and> \<not> is_stream_task_completed v ''J1''
         \<and> timedelta_seconds (clock v - start_time fresh_reader) \<le> 30
         \<and> prefix (task_log ''J1'' v) (task_log ''J1'' ?wd)"
    by (simp add: job_world_def get_stream_task_def is_stream_task_completed_def
        timedelta_seconds_def fresh_reader_def task_log_def get_stream_task_updates_def)
  have h7: "get_stream_task ?wd ''J1'' \<noteq> None"
    and h8: "is_stream_task_completed ?wd ''J1''"
    and h9: "timedelta_seconds (clock ?wd - start_time fresh_reader) \<le> 30"
    by (simp_all add: job_world_def get_stream_task_def is_stream_task_completed_def
        timedelta_seconds_def fresh_reader_def)
  note T = reader_delivers_log_in_order [of "''J1''" ?wA "[?wB, ?wC]" 30 fresh_reader ?E ?S
        "''S1''" ?cA "[?cB, ?cC]" 3600 fresh_reader
        "fst (client_event_generator ''S1'' 3600 (AtSleep fresh_reader) (?cA # [?cB, ?cC]))"
        "snd (client_event_generator ''S1'' 3600 (AtSleep fresh_reader) (?cA # [?cB, ?cC]))"
        "[?wA, ?wC]" ?wd ?cA "[?cB]" ?cC ?wA "[job_world [step1, step2] False 500000]"
        "job_world [step1, step2] False 31000000"]
  from T g1 r1 have A: "prefix (map data (job_log_frames ?E))
      (drop (last_index fresh_reader) (task_log ''J1'' (last (?wA # [?wB, ?wC]))))"
    by blast
  have A': "prefix [step1, step2] (drop (last_index fresh_reader) (task_log ''J1'' ?wC))"
    using A unfolding f1 l1 .
  from T g2 r2 have B: "prefix (map data (client_log_frames
        (fst (client_event_generator ''S1'' 3600 (AtSleep fresh_reader) (?cA # [?cB, ?cC])))))
      (drop (last_index fresh_reader) (session_log ''S1'' (last (?cA # [?cB, ?cC]))))"
    by blast
  have B': "prefix (map data (client_log_frames
        (fst (client_event_generator ''S1'' 3600 (AtSleep fresh_reader) (?cA # [?cB, ?cC])))))
      (drop (last_index fresh_reader) (session_log ''S1'' ?cC))"
    using B unfolding l2 .
  from T h6 h7 h8 h9 have C: "\<exists>peffs r'. event_generator_polls ''J1'' 30 (AtSleep fresh_reader)
          ([?wA, ?wC] @ [?wd]) = (peffs, Closed r')
        \<and> map data (frames_of peffs) = drop (last_index fresh_reader) (task_log ''J1'' ?wd)
        \<and> last_index r' = last_index fresh_reader + length (frames_of peffs)"
    by blast
  have D: "last_index fresh_reader + 2 = delivered ?S" by (simp add: fresh_reader_def)
  have h6': "get_stream_task ?wA ''J1'' \<noteq> None" "\<not> is_stream_task_completed ?wA ''J1''"
    "timedelta_seconds (clock ?wA - start_time fresh_reader) \<le> 30"
    "prefix (task_log ''J1'' ?wA) (task_log ''J1'' ?wd)"
    "get_stream_task ?wC ''J1'' \<noteq> None" "\<not> is_stream_task_completed ?wC ''J1''"
    "timedelta_seconds (clock ?wC - start_time fresh_reader) \<le> 30"
    "prefix (task_log ''J1'' ?wC) (task_log ''J1'' ?wd)"
    using h6 by simp_all
  have sg: "log_grows (session_log ''S1'') ?cA [?cB]"
    by (simp add: client_world_def session_log_def get_client_updates_def)
  have sa: "\<forall>v \<in> set (?cA # [?cB]). is_client_session_active v ''S1''
             \<and> timedelta_seconds (clock v - start_time fresh_reader) \<le> 3600"
    by (simp add: client_world_def is_client_session_active_def timedelta_seconds_def
        fresh_reader_def)
  have sa': "is_client_session_active ?cA ''S1''"
    "timedelta_seconds (clock ?cA - start_time fresh_reader) \<le> 3600"
    "is_client_session_active ?cB ''S1''"
    "timedelta_seconds (clock ?cB - start_time fresh_reader) \<le> 3600"
    using sa by simp_all
  have sc: "\<not> is_client_session_active ?cC ''S1''"
    by (simp add: client_world_def is_client_session_active_def)
  have sl: "get_client_updates (last (?cA # [?cB])) ''S1'' (last_index fresh_reader)
              = [progress_event, plain_event]"
    by (simp add: client_world_def get_client_updates_def fresh_reader_def)
  from T sg sa sc have SE: "\<exists>seffs. client_event_generator_polls ''S1'' 3600 (AtSleep fresh_reader)
        ((?cA # [?cB]) @ [?cC])
         = (seffs, Closed (fresh_reader\<lparr>last_index := last_index fresh_reader
              + length (get_client_updates (last (?cA # [?cB])) ''S1'' (last_index fresh_reader))\<rparr>))
       \<and> frames_of seffs
         = map client_frame (get_client_updates (last (?cA # [?cB])) ''S1'' (last_index fresh_reader))
           @ [if \<not> is_client_session_active ?cC ''S1''
              then session_closed_frame else session_timeout_frame]"
    by blast
  have SE': "\<exists>seffs. client_event_generator_polls ''S1'' 3600 (AtSleep fresh_reader)
        ((?cA # [?cB]) @ [?cC])
         = (seffs, Closed (fresh_reader\<lparr>last_index := last_index fresh_reader + 2\<rparr>))
       \<and> frames_of seffs
         = [client_frame progress_event, client_frame plain_event, session_closed_frame]"
    using SE sc unfolding sl by simp
  have SV: "client_event_generator_polls ''S1'' 3600 (AtSleep fresh_reader) ((?cA # [?cB]) @ [?cC])
      = ([GetClientUpdates ''S1'' 0, Yield (client_frame progress_event), Sleep,
          GetClientUpdates ''S1'' 1, Yield (client_frame plain_event), Sleep,
          Yield session_closed_frame],
         Closed \<lparr>start_time = 0, last_index = 2\<rparr>)"
    by (simp add: client_poll_eq client_world_def is_client_session_active_def
        timedelta_seconds_def fresh_reader_def get_client_updates_def)
  let ?jB = "job_world [step1, step2] False 500000"
  let ?jC = "job_world [step1, step2] False 31000000"
  have jg: "log_grows (task_log ''J1'') ?wA [?jB]"
    by (simp add: job_world_def task_log_def get_stream_task_updates_def)
  have ja: "\<forall>v \<in> set (?wA # [?jB]). get_stream_task v ''J1'' \<noteq> None
             \<and> \<not> is_stream_task_completed v ''J1''
             \<and> timedelta_seconds (clock v - start_time fresh_reader) \<le> 30"
    using h6 by simp
  have jc: "timedelta_seconds (clock ?jC - start_time fresh_reader) > 30"
    by (simp add: job_world_def timedelta_seconds_def fresh_reader_def)
  have jl: "get_stream_task_updates (last (?wA # [?jB])) ''J1'' (last_index fresh_reader)
              = [step1, step2]"
    by (simp add: job_world_def get_stream_task_updates_def fresh_reader_def)
  from T jg ja jc have JE: "\<exists>jeffs. event_generator_polls ''J1'' 30 (AtSleep fresh_reader)
        ((?wA # [?jB]) @ [?jC])
         = (jeffs, Closed (fresh_reader\<lparr>last_index := last_index fresh_reader
              + length (get_stream_task_updates (last (?wA # [?jB])) ''J1'' (last_index fresh_reader))\<rparr>))
       \<and> frames_of jeffs
         = map (tagged ''update'') (get_stream_task_updates (last (?wA # [?jB])) ''J1'' (last_index fresh_reader))
           @ [if timedelta_seconds (clock ?jC - start_time fresh_reader) > 30
              then stream_timeout_frame else task_not_found_frame]"
    by blast
  have JE': "\<exists>jeffs. event_generator_polls ''J1'' 30 (AtSleep fresh_reader)
        ((?wA # [?jB]) @ [?jC])
         = (jeffs, Closed (fresh_reader\<lparr>last_index := last_index fresh_reader + 2\<rparr>))
       \<and> frames_of jeffs
         = [tagged ''update'' step1, tagged ''update'' step2, stream_timeout_frame]"
    using JE jc unfolding jl by simp
  show ?thesis
    using g1 r1 f1 A' D g2 B' h6' h7 h8 h9 C sg sa' sc SV SE' jg jc JE' by (intro conjI)
qed

lemma scenario_A_eq: "scenario_A = Inr (job_world [step1, step2, ok_result] True 0)"
  by (simp add: scenario_A_def and_then_def create_stream_task_def update_stream_task_def
      complete_stream_task_def job_world_def)

text \<open>
  C2, amended. A reader at cursor 0 with undisturbed ticks and no timeout, whose last
  poll before completion found exactly the two progress updates, emits them tagged
  \<open>update\<close>, then the result tagged \<open>complete\<close>, and closes. A reader whose first poll
  comes after completion emits the same three payloads in the same order, all tagged
  \<open>complete\<close>, and closes.
\<close>

theorem scenario_A_tags_depend_on_poll_time:
  assumes "get_stream_task wd task_id \<noteq> None" and "is_stream_task_completed wd task_id"
      and "timedelta_seconds (clock wd - start_time r) \<le> timeout"
      and "task_log task_id wd = [u1, u2, res]" and "last_index r = 0"
  shows "((\<forall>v \<in> set ticks. get_stream_task v task_id \<noteq> None \<and> \<not> is_stream_task_completed v task_id
             \<and> timedelta_seconds (clock v - start_time r) \<le> timeout
             \<and> prefix (task_log task_id v) [u1, u2])
          \<and> ticks \<noteq> [] \<and> task_log task_id (last ticks) = [u1, u2] \<longrightarrow>
          (\<exists>effs r'. event_generator_polls task_id timeout (AtSleep r) (ticks @ [wd]) = (effs, Closed r')
             \<and> frames_of effs = [\<lparr>event = JStr ''update'', data = u1\<rparr>,
                                 \<lparr>event = JStr ''update'', data = u2\<rparr>,
                                 \<lparr>event = JStr ''complete'', data = res\<rparr>]))
       \<and> (\<exists>effs r'. event_generator_polls task_id timeout (AtSleep r) [wd] = (effs, Closed r')
             \<and> frames_of effs = [\<lparr>event = JStr ''complete'', data = u1\<rparr>,
                                 \<lparr>event = JStr ''complete'', data = u2\<rparr>,
                                 \<lparr>event = JStr ''complete'', data = res\<rparr>])"
proof (intro conjI impI)
  assume a: "(\<forall>v \<in> set ticks. get_stream_task v task_id \<noteq> None \<and> \<not> is_stream_task_completed v task_id
             \<and> timedelta_seconds (clock v - start_time r) \<le> timeout
             \<and> prefix (task_log task_id v) [u1, u2])
          \<and> ticks \<noteq> [] \<and> task_log task_id (last ticks) = [u1, u2]"
  have pre: "\<forall>v \<in> set ticks. get_stream_task v task_id \<noteq> None \<and> \<not> is_stream_task_completed v task_id
             \<and> timedelta_seconds (clock v - start_time r) \<le> timeout
             \<and> prefix (task_log task_id v) (task_log task_id wd)"
  proof
    fix v assume v: "v \<in> set ticks"
    with a have "prefix (task_log task_id v) [u1, u2]" by blast
    then have "prefix (task_log task_id v) ([u1, u2] @ [res])" by (rule prefix_prefix)
    then show "get_stream_task v task_id \<noteq> None \<and> \<not> is_stream_task_completed v task_id
             \<and> timedelta_seconds (clock v - start_time r) \<le> timeout
             \<and> prefix (task_log task_id v) (task_log task_id wd)"
      using a v assms(4) by simp
  qed
  have "\<forall>v \<in> set ticks. length (task_log task_id v) \<le> 2"
  proof
    fix v assume "v \<in> set ticks"
    with a have "prefix (task_log task_id v) [u1, u2]" by blast
    then show "length (task_log task_id v) \<le> 2" using prefix_length_le by fastforce
  qed
  then have le: "seen task_id 0 ticks \<le> 2" by (intro seen_le) simp_all
  have "last ticks \<in> set ticks" using a by simp
  then have "length (task_log task_id (last ticks)) \<le> seen task_id 0 ticks" by (rule seen_ge_log)
  then have sn: "seen task_id 0 ticks = 2" using le a by simp
  from polls_until_completion [OF pre assms(1,2,3)] obtain effs r' where
    "event_generator_polls task_id timeout (AtSleep r) (ticks @ [wd]) = (effs, Closed r')"
    "frames_of effs = map (tagged ''update'')
                (take (seen task_id (last_index r) ticks - last_index r) (drop (last_index r) (task_log task_id wd)))
              @ map (tagged ''complete'') (drop (seen task_id (last_index r) ticks) (task_log task_id wd))"
    by blast
  then show "\<exists>effs r'. event_generator_polls task_id timeout (AtSleep r) (ticks @ [wd]) = (effs, Closed r')
             \<and> frames_of effs = [\<lparr>event = JStr ''update'', data = u1\<rparr>,
                                 \<lparr>event = JStr ''update'', data = u2\<rparr>,
                                 \<lparr>event = JStr ''complete'', data = res\<rparr>]"
    using assms(4,5) sn by (simp add: tagged_def)
next
  have "\<forall>v \<in> set ([]::world list). get_stream_task v task_id \<noteq> None \<and> \<not> is_stream_task_completed v task_id
             \<and> timedelta_seconds (clock v - start_time r) \<le> timeout
             \<and> prefix (task_log task_id v) (task_log task_id wd)" by simp
  from polls_until_completion [OF this assms(1,2,3)]
  show "\<exists>effs r'. event_generator_polls task_id timeout (AtSleep r) [wd] = (effs, Closed r')
             \<and> frames_of effs = [\<lparr>event = JStr ''complete'', data = u1\<rparr>,
                                 \<lparr>event = JStr ''complete'', data = u2\<rparr>,
                                 \<lparr>event = JStr ''complete'', data = res\<rparr>]"
    using assms(4,5) by (simp add: tagged_def) blast
qed

text \<open>
  C2, as stated, fails: a reader that starts after the producer of scenario A has
  finished tags every frame \<open>complete\<close>.
\<close>

theorem late_reader_tags_all_complete_counterexample:
  "scenario_A = Inr (job_world [step1, step2, ok_result] True 0)
   \<and> event_generator ''J1'' 30 NotStarted
        [job_world [step1, step2, ok_result] True 1000000,
         job_world [step1, step2, ok_result] True 1000000,
         job_world [step1, step2, ok_result] True 1000000,
         job_world [step1, step2, ok_result] True 1000000]
      = ([GetStreamTaskUpdates ''J1'' 0,
          Yield \<lparr>event = JStr ''complete'', data = JObj [(''step'', JInt 1)]\<rparr>,
          Yield \<lparr>event = JStr ''complete'', data = JObj [(''step'', JInt 2)]\<rparr>,
          Yield \<lparr>event = JStr ''complete'', data = JObj [(''ok'', JBool True)]\<rparr>],
         Closed \<lparr>start_time = 1000000, last_index = 3\<rparr>)
   \<and> frames_of (fst (event_generator ''J1'' 30 NotStarted
        [job_world [step1, step2, ok_result] True 1000000,
         job_world [step1, step2, ok_result] True 1000000,
         job_world [step1, step2, ok_result] True 1000000,
         job_world [step1, step2, ok_result] True 1000000]))
      \<noteq> [\<lparr>event = JStr ''update'', data = JObj [(''step'', JInt 1)]\<rparr>,
          \<lparr>event = JStr ''update'', data = JObj [(''step'', JInt 2)]\<rparr>,
          \<lparr>event = JStr ''complete'', data = JObj [(''ok'', JBool True)]\<rparr>]"
  by (simp add: scenario_A_eq job_world_def event_generator_tick_def timedelta_seconds_def
      get_stream_task_def get_stream_task_updates_def is_stream_task_completed_def
      update_frame_def step1_def step2_def ok_result_def)

theorem scenario_A_tags_depend_on_poll_time_witness:
  "get_stream_task (job_world [step1, step2, ok_result] True 1000000) ''J1'' \<noteq> None
   \<and> is_stream_task_completed (job_world [step1, step2, ok_result] True 1000000) ''J1''
   \<and> timedelta_seconds (clock (job_world [step1, step2, ok_result] True 1000000) - start_time fresh_reader) \<le> 30
   \<and> task_log ''J1'' (job_world [step1, step2, ok_result] True 1000000) = [step1, step2, ok_result]
   \<and> last_index fresh_reader = 0
   \<and> get_stream_task (job_world [step1] False 0) ''J1'' \<noteq> None
   \<and> \<not> is_stream_task_completed (job_world [step1] False 0) ''J1''
   \<and> timedelta_seconds (clock (job_world [step1] False 0) - start_time fresh_reader) \<le> 30
   \<and> prefix (task_log ''J1'' (job_world [step1] False 0)) [step1, step2]
   \<and> get_stream_task (job_world [step1, step2] False 500000) ''J1'' \<noteq> None
   \<and> \<not> is_stream_task_completed (job_world [step1, step2] False 500000) ''J1''
   \<and> timedelta_seconds (clock (job_world [step1, step2] False 500000) - start_time fresh_reader) \<le> 30
   \<and> prefix (task_log ''J1'' (job_world [step1, step2] False 500000)) [step1, step2]
   \<and> [job_world [step1] False 0, job_world [step1, step2] False 500000] \<noteq> []
   \<and> task_log ''J1'' (last [job_world [step1] False 0, job_world [step1, step2] False 500000]) = [step1, step2]
   \<and> (\<exists>effs r'. event_generator_polls ''J1'' 30 (AtSleep fresh_reader)
          ([job_world [step1] False 0, job_world [step1, step2] False 500000]
             @ [job_world [step1, step2, ok_result] True 1000000]) = (effs, Closed r')
        \<and> frames_of effs = [\<lparr>event = JStr ''update'', data = step1\<rparr>,
                            \<lparr>event = JStr ''update'', data = step2\<rparr>,
                            \<lparr>event = JStr ''complete'', data = ok_result\<rparr>])
   \<and> (\<exists>effs r'. event_generator_polls ''J1'' 30 (AtSleep fresh_reader)
          [job_world [step1, step2, ok_result] True 1000000] = (effs, Closed r')
        \<and> frames_of effs = [\<lparr>event = JStr ''complete'', data = step1\<rparr>,
                            \<lparr>event = JStr ''complete'', data = step2\<rparr>,
                            \<lparr>event = JStr ''complete'', data = ok_result\<rparr>])"
proof -
  let ?wd = "job_world [step1, step2, ok_result] True 1000000"
  let ?ticks = "[job_world [step1] False 0, job_world [step1, step2] False 500000]"
  have h1: "get_stream_task ?wd ''J1'' \<noteq> None"
    and h2: "is_stream_task_completed ?wd ''J1''"
    and h3: "timedelta_seconds (clock ?wd - start_time fresh_reader) \<le> 30"
    and h4: "task_log ''J1'' ?wd = [step1, step2, ok_result]"
    and h5: "last_index fresh_reader = 0"
    by (simp_all add: job_world_def get_stream_task_def is_stream_task_completed_def
        timedelta_seconds_def fresh_reader_def task_log_def get_stream_task_updates_def)
  have h6: "\<forall>v \<in> set ?ticks.
         get_stream_task v ''J1'' \<noteq> None \<and> \<not> is_stream_task_completed v ''J1''
         \<and> timedelta_seconds (clock v - start_time fresh_reader) \<le> 30
         \<and> prefix (task_log ''J1'' v) [step1, step2]"
    by (simp add: job_world_def get_stream_task_def is_stream_task_completed_def
        timedelta_seconds_def fresh_reader_def task_log_def get_stream_task_updates_def)
  have h7: "?ticks \<noteq> []" by simp
  have h8: "task_log ''J1'' (last ?ticks) = [step1, step2]"
    by (simp add: job_world_def task_log_def get_stream_task_updates_def)
  have h6': "get_stream_task (job_world [step1] False 0) ''J1'' \<noteq> None"
    "\<not> is_stream_task_completed (job_world [step1] False 0) ''J1''"
    "timedelta_seconds (clock (job_world [step1] False 0) - start_time fresh_reader) \<le> 30"
    "prefix (task_log ''J1'' (job_world [step1] False 0)) [step1, step2]"
    "get_stream_task (job_world [step1, step2] False 500000) ''J1'' \<noteq> None"
    "\<not> is_stream_task_completed (job_world [step1, step2] False 500000) ''J1''"
    "timedelta_seconds (clock (job_world [step1, step2] False 500000) - start_time fresh_reader) \<le> 30"
    "prefix (task_log ''J1'' (job_world [step1, step2] False 500000)) [step1, step2]"
    using h6 by simp_all
  from scenario_A_tags_depend_on_poll_time [OF h1 h2 h3 h4 h5, of ?ticks] h6 h7 h8
  have c: "(\<exists>effs r'. event_generator_polls ''J1'' 30 (AtSleep fresh_reader) (?ticks @ [?wd]) = (effs, Closed r')
        \<and> frames_of effs = [\<lparr>event = JStr ''update'', data = step1\<rparr>,
                            \<lparr>event = JStr ''update'', data = step2\<rparr>,
                            \<lparr>event = JStr ''complete'', data = ok_result\<rparr>])"
    "(\<exists>effs r'. event_generator_polls ''J1'' 30 (AtSleep fresh_reader) [?wd] = (effs, Closed r')
        \<and> frames_of effs = [\<lparr>event = JStr ''complete'', data = step1\<rparr>,
                            \<lparr>event = JStr ''complete'', data = step2\<rparr>,
                            \<lparr>event = JStr ''complete'', data = ok_result\<rparr>])"
    by blast+
  show ?thesis
    using h1 h2 h3 h4 h5 h6' h7 h8 c by (intro conjI)
qed

text \<open>
  C1, as stated, fails. A job reader that times out emits an \<open>error\<close> frame and nothing
  of the log. A session reader that has delivered the first event finds the session
  closed on its next tick: it emits \<open>session_closed\<close>, a frame that is no log entry, and
  the second event of the final log is never delivered.
\<close>

theorem readers_stop_short_counterexample:
  "event_generator ''J1'' 30 (AtSleep fresh_reader) [job_world [step1] False 31000000]
     = ([Yield \<lparr>event = JStr ''error'', data = JObj [(''error'', JStr ''Stream timeout'')]\<rparr>],
        Closed fresh_reader)
   \<and> task_log ''J1'' (job_world [step1] False 31000000) = [step1]
   \<and> client_event_generator ''S1'' 3600 (AtSleep fresh_reader)
        [client_world [progress_event] True 0,
         client_world [progress_event, plain_event] True 200000,
         client_world [progress_event, plain_event] False 500000]
     = ([GetClientUpdates ''S1'' 0,
         Yield \<lparr>event = JStr ''progress'', data = JObj progress_event\<rparr>,
         Sleep,
         Yield \<lparr>event = JStr ''session_closed'',
                data = JObj [(''message'', JStr ''Client session closed'')]\<rparr>],
        Closed \<lparr>start_time = 0, last_index = 1\<rparr>)
   \<and> session_log ''S1'' (client_world [progress_event, plain_event] False 500000)
     = [JObj progress_event, JObj plain_event]
   \<and> map data (frames_of (fst (event_generator ''J1'' 30 (AtSleep fresh_reader)
          [job_world [step1] False 31000000])))
     \<noteq> drop (last_index fresh_reader) (task_log ''J1'' (job_world [step1] False 31000000))
   \<and> map data (frames_of (fst (client_event_generator ''S1'' 3600 (AtSleep fresh_reader)
          [client_world [progress_event] True 0,
           client_world [progress_event, plain_event] True 200000,
           client_world [progress_event, plain_event] False 500000])))
     \<noteq> drop (last_index fresh_reader)
          (session_log ''S1'' (client_world [progress_event, plain_event] False 500000))"
  by (simp add: fresh_reader_def job_world_def client_world_def event_generator_tick_def
      client_event_generator_tick_def timedelta_seconds_def stream_timeout_frame_def
      session_closed_frame_def task_log_def session_log_def get_stream_task_updates_def
      get_client_updates_def is_client_session_active_def client_frame_def dict_get_def
      progress_event_def plain_event_def step1_def)

text \<open>
  When the producer appends and completes while the reader is suspended at a yield, the
  completion check after the for loop ends the stream with the later updates undelivered.
\<close>

lemma completion_during_yield_loses_updates:
  "event_generator ''J1'' 30 NotStarted
     [job_world [step1] False 0, job_world [step1, step2, ok_result] True 200000]
   = ([GetStreamTaskUpdates ''J1'' 0, Yield \<lparr>event = JStr ''update'', data = step1\<rparr>],
      Closed \<lparr>start_time = 0, last_index = 1\<rparr>)"
  by (simp add: job_world_def event_generator_tick_def timedelta_seconds_def
      get_stream_task_def get_stream_task_updates_def is_stream_task_completed_def
      update_frame_def)

section \<open>The final drain (C7)\<close>

lemma command_output_of_command_update [simp]:
  "command_output_of (command_update ts out n) = out"
  by (simp add: command_output_of_def command_update_def)

lemma output_type_of_command_update [simp]:
  "output_type_of (command_update ts out n) = JStr ''command''"
  by (simp add: output_type_of_def command_update_def dict_get_def)










lemma drained_upto_monitor_flag [simp]:
  "drained_upto base task_id (st\<lparr>monitor_running := x\<rparr>) progress batches
     = drained_upto base task_id st progress batches"
  by (simp add: drained_upto_def)

lemma output_type_of_terminal [simp]:
  "output_type_of (error_update ts err out) = JStr ''error''"
  "output_type_of (handler_error_update ts msg workflow_id) = JStr ''error''"
  "output_type_of (final_result ts workflow_id er tot) = JStr ''completion''"
  by (simp_all add: output_type_of_def error_update_def handler_error_update_def
      final_result_def dict_get_def)




end
